theory Spec2Isabelle
  imports Complex_Main
begin

section \<open>Common JavaScript notions\<close>

text \<open>
  A thrown JavaScript exception: \<open>new Error(msg)\<close>, or the \<open>TypeError\<close> the engine raises on a
  property read of \<open>undefined\<close>. A rejected promise carries the same value.
\<close>

datatype js_error = Error string | TypeError string

section \<open>Controllers: \<open>downloadDataset\<close> and \<open>geocodingAction\<close>\<close>

text \<open>
  Each namespace owns one module-level variable \<open>let initialized = false\<close>. The two counters are
  ghost state: they count how often \<open>setupContainer\<close> and \<open>setupContainerForTest\<close> were entered.
\<close>

record module_state =
  initialized :: bool
  setupContainer_runs :: nat
  setupContainerForTest_runs :: nat

definition module_initial :: module_state where
  "module_initial =
     \<lparr>initialized = False, setupContainer_runs = 0, setupContainerForTest_runs = 0\<rparr>"

text \<open>
  \<open>setupContainer\<close> lives in \<open>interface-adapter\<close>, outside the sources at hand. It is
  represented by its outcome: \<open>None\<close> when the promise resolves, \<open>Some e\<close> when it rejects
  with \<open>e\<close>.
\<close>

definition setupContainer :: "js_error option \<Rightarrow> module_state \<Rightarrow> (js_error + unit) \<times> module_state" where
  "setupContainer outcome s =
     (case outcome of
        None \<Rightarrow> Inr ()
      | Some e \<Rightarrow> Inl e,
      s\<lparr>setupContainer_runs := setupContainer_runs s + 1\<rparr>)"

definition setupContainerForTest :: "js_error option \<Rightarrow> module_state \<Rightarrow> (js_error + unit) \<times> module_state" where
  "setupContainerForTest outcome s =
     (case outcome of
        None \<Rightarrow> Inr ()
      | Some e \<Rightarrow> Inl e,
      s\<lparr>setupContainerForTest_runs := setupContainerForTest_runs s + 1\<rparr>)"

text \<open>\<open>downloadDataset.init\<close> (onDownloadAction/index.ts, lines 29-35).\<close>

definition downloadDataset_init :: "js_error option \<Rightarrow> module_state \<Rightarrow> (js_error + unit) \<times> module_state" where
  "downloadDataset_init outcome s =
     (if initialized s then (Inl (Error ''Already initialized''), s)
      else setupContainer outcome (s\<lparr>initialized := True\<rparr>))"

text \<open>
  \<open>downloadDataset.start\<close> (lines 37-117). Everything after the guard works on the DI
  container, the database and the file system; \<open>body\<close> is the outcome of that remainder.
\<close>

definition downloadDataset_start :: "(js_error + unit) \<Rightarrow> module_state \<Rightarrow> (js_error + unit) \<times> module_state" where
  "downloadDataset_start body s =
     (if \<not> initialized s
      then (Inl (Error ''Must run init() or initForTest() before involving this function''), s)
      else (body, s))"

text \<open>\<open>onDownloadAction\<close> (lines 122-125): \<open>await init(params); await start(params)\<close>.\<close>

definition onDownloadAction :: "js_error option \<Rightarrow> (js_error + unit) \<Rightarrow> module_state \<Rightarrow> (js_error + unit) \<times> module_state" where
  "onDownloadAction outcome body s =
     (case downloadDataset_init outcome s of
        (Inl e, s') \<Rightarrow> (Inl e, s')
      | (Inr _, s') \<Rightarrow> downloadDataset_start body s')"

text \<open>\<open>geocodingAction.init\<close> and \<open>geocodingAction.initForTest\<close> (part 002, lines 40-54).\<close>

definition geocodingAction_init :: "js_error option \<Rightarrow> module_state \<Rightarrow> (js_error + unit) \<times> module_state" where
  "geocodingAction_init outcome s =
     (if initialized s then (Inl (Error ''Already initialized''), s)
      else setupContainer outcome (s\<lparr>initialized := True\<rparr>))"

definition geocodingAction_initForTest :: "js_error option \<Rightarrow> module_state \<Rightarrow> (js_error + unit) \<times> module_state" where
  "geocodingAction_initForTest outcome s =
     (if initialized s then (Inl (Error ''Already initialized''), s)
      else setupContainerForTest outcome (s\<lparr>initialized := True\<rparr>))"

section \<open>The download fabric: \<open>DownloadTransform\<close>\<close>

text \<open>
  Modelled from the spec: the result type of the worker pool. \<open>DownloadQueryBase\<close>,
  \<open>DownloadProcessError\<close> and the type guard \<open>isDownloadProcessError\<close> are imported from
  \<open>@domain/models/download-process-query\<close>, which is not among the sources; the spec says the
  fabric returns either a typed success payload or a typed \<open>DownloadProcessError\<close>.
\<close>

datatype ('a, 'e) DownloadQueryBase = DownloadResult 'a | DownloadProcessError 'e

fun isDownloadProcessError :: "('a, 'e) DownloadQueryBase \<Rightarrow> bool" where
  "isDownloadProcessError (DownloadProcessError _) = True"
| "isDownloadProcessError (DownloadResult _) = False"

text \<open>
  A \<open>DownloadRequest\<close>: the transform reads and writes only its \<open>useCache\<close> field; \<open>request\<close>
  stands for all the others.
\<close>

record 'q DownloadRequest =
  useCache :: bool
  request :: 'q

text \<open>What \<open>this.push\<close> hands to the readable side: a record, or \<open>null\<close>, the end of the stream.\<close>

datatype 'r chunk = Chunk 'r | EndOfStream

text \<open>
  \<open>_write\<close> is an async function: it runs until its next \<open>await\<close>, and is resumed when the
  awaited promise settles. Between two awaits nothing else runs (one JavaScript thread), so
  an invocation of \<open>_write\<close> is, at any moment, waiting for \<open>downloader.run\<close>, waiting for
  \<open>timers.setTimeout\<close>, or has returned. Its local variables \<open>retry\<close> and \<open>params\<close> are kept
  per invocation.
\<close>

datatype phase = AwaitingRun | AwaitingTimer | Returned

record 'q task =
  retry :: int
  params :: "'q DownloadRequest"
  phase :: phase

text \<open>
  The object's fields \<open>receivedFinal\<close> and \<open>runningTasks\<close>, the invocations of \<open>_write\<close> so
  far (in the order they were entered), what has been pushed downstream, and two ghost logs:
  every call of \<open>this.downloader.run(params)\<close> with the invocation that made it and the
  request as it was at the call, and every delay handed to \<open>timers.setTimeout\<close>.
\<close>

record ('q, 'a, 'e) transform_state =
  receivedFinal :: bool
  runningTasks :: int
  tasks :: "'q task list"
  pushed :: "('a, 'e) DownloadQueryBase chunk list"
  run_calls :: "(nat \<times> 'q DownloadRequest) list"
  delays :: "(nat \<times> real) list"

definition transform_initial :: "('q, 'a, 'e) transform_state" where
  "transform_initial =
     \<lparr>receivedFinal = False, runningTasks = 0, tasks = [], pushed = [], run_calls = [], delays = []\<rparr>"

text \<open>
  The head of the loop (part 000, lines 96-98): \<open>while (retry < 5)\<close>, then
  \<open>await this.downloader.run(params)\<close>. When the test fails the loop is left and \<open>_write\<close>
  returns (line 126) without touching the counter and without a push.
\<close>

definition loop_head :: "nat \<Rightarrow> ('q, 'a, 'e) transform_state \<Rightarrow> ('q, 'a, 'e) transform_state" where
  "loop_head tid s =
     (let t = tasks s ! tid in
      if retry t < 5
      then s\<lparr>run_calls := run_calls s @ [(tid, params t)],
             tasks := (tasks s)[tid := t\<lparr>phase := AwaitingRun\<rparr>]\<rparr>
      else s\<lparr>tasks := (tasks s)[tid := t\<lparr>phase := Returned\<rparr>]\<rparr>)"

text \<open>
  \<open>_write\<close> from its entry to its first await (lines 86-98): count the task, acknowledge the
  intake (\<open>callback()\<close>, no effect on the state), set \<open>params.useCache = true\<close> and
  \<open>retry = 0\<close>, enter the loop.
\<close>

definition DownloadTransform_write ::
    "'q DownloadRequest \<Rightarrow> ('q, 'a, 'e) transform_state \<Rightarrow> ('q, 'a, 'e) transform_state" where
  "DownloadTransform_write p s =
     (let tid = length (tasks s);
          s1 = s\<lparr>runningTasks := runningTasks s + 1\<rparr>;
          s2 = s1\<lparr>tasks := tasks s1 @ [\<lparr>retry = 0, params = p\<lparr>useCache := True\<rparr>, phase = AwaitingRun\<rparr>]\<rparr>
      in loop_head tid s2)"

text \<open>Lines 102-106 and 109-113, the same in both branches: push, test, push \<open>null\<close>, return.\<close>

definition push_and_return ::
    "nat \<Rightarrow> ('a, 'e) DownloadQueryBase \<Rightarrow> ('q, 'a, 'e) transform_state \<Rightarrow> ('q, 'a, 'e) transform_state" where
  "push_and_return tid r s =
     (let s1 = s\<lparr>pushed := pushed s @ [Chunk r]\<rparr>;
          s2 = (if runningTasks s1 = 0 \<and> receivedFinal s1
                then s1\<lparr>pushed := pushed s1 @ [EndOfStream]\<rparr> else s1)
      in s2\<lparr>tasks := (tasks s2)[tid := (tasks s2 ! tid)\<lparr>phase := Returned\<rparr>]\<rparr>)"

text \<open>\<open>_write\<close> resumed with the result of \<open>downloader.run\<close> (lines 98-113).\<close>

definition run_resolved ::
    "nat \<Rightarrow> ('a, 'e) DownloadQueryBase \<Rightarrow> ('q, 'a, 'e) transform_state \<Rightarrow> ('q, 'a, 'e) transform_state" where
  "run_resolved tid r s =
     (let s1 = s\<lparr>runningTasks := runningTasks s - 1\<rparr> in
      if isDownloadProcessError r then push_and_return tid r s1
      else push_and_return tid r s1)"

text \<open>
  \<open>_write\<close> resumed in its \<open>catch\<close> block (lines 114-120): \<open>retry--\<close>, then
  \<open>await timers.setTimeout(Math.random() * 5000 + 100)\<close>; \<open>u\<close> is what \<open>Math.random()\<close>
  returned.
\<close>

definition run_rejected :: "nat \<Rightarrow> real \<Rightarrow> ('q, 'a, 'e) transform_state \<Rightarrow> ('q, 'a, 'e) transform_state" where
  "run_rejected tid u s =
     (let t = tasks s ! tid in
      s\<lparr>delays := delays s @ [(tid, u * 5000 + 100)],
        tasks := (tasks s)[tid := t\<lparr>retry := retry t - 1, phase := AwaitingTimer\<rparr>]\<rparr>)"

text \<open>
  \<open>_write\<close> resumed after the delay (lines 122-125, then the loop head):
  \<open>params.useCache = false\<close>, and the loop test again.
\<close>

definition timer_fired :: "nat \<Rightarrow> ('q, 'a, 'e) transform_state \<Rightarrow> ('q, 'a, 'e) transform_state" where
  "timer_fired tid s =
     (let t = tasks s ! tid;
          s1 = s\<lparr>tasks := (tasks s)[tid := t\<lparr>params := (params t)\<lparr>useCache := False\<rparr>\<rparr>]\<rparr>
      in loop_head tid s1)"

text \<open>\<open>_final\<close> (lines 128-131).\<close>

definition DownloadTransform_final :: "('q, 'a, 'e) transform_state \<Rightarrow> ('q, 'a, 'e) transform_state" where
  "DownloadTransform_final s = s\<lparr>receivedFinal := True\<rparr>"

text \<open>
  What can happen to the transform: the upstream writes a request, a call of
  \<open>downloader.run\<close> made by invocation \<open>tid\<close> resolves or rejects, a delay of invocation
  \<open>tid\<close> elapses, the upstream ends. A promise settles only for an invocation that awaits
  it, and Node's writable side never calls \<open>_write\<close> once it has called \<open>_final\<close>; an
  event that cannot happen leaves the state as it is.
\<close>

datatype ('q, 'a, 'e) event =
    Write "'q DownloadRequest"
  | RunResolved nat "('a, 'e) DownloadQueryBase"
  | RunRejected nat real
  | TimerFired nat
  | Final

definition awaiting :: "nat \<Rightarrow> phase \<Rightarrow> ('q, 'a, 'e) transform_state \<Rightarrow> bool" where
  "awaiting tid ph s = (tid < length (tasks s) \<and> phase (tasks s ! tid) = ph)"

fun step :: "('q, 'a, 'e) transform_state \<Rightarrow> ('q, 'a, 'e) event \<Rightarrow> ('q, 'a, 'e) transform_state" where
  "step s (Write p) = (if receivedFinal s then s else DownloadTransform_write p s)"
| "step s (RunResolved tid r) = (if awaiting tid AwaitingRun s then run_resolved tid r s else s)"
| "step s (RunRejected tid u) = (if awaiting tid AwaitingRun s then run_rejected tid u s else s)"
| "step s (TimerFired tid) = (if awaiting tid AwaitingTimer s then timer_fired tid s else s)"
| "step s Final = DownloadTransform_final s"

definition run_events :: "('q, 'a, 'e) event list \<Rightarrow> ('q, 'a, 'e) transform_state" where
  "run_events evs = foldl step transform_initial evs"

text \<open>The calls of \<open>downloader.run\<close> that invocation \<open>tid\<close> made, oldest first.\<close>

definition attempts :: "nat \<Rightarrow> ('q, 'a, 'e) transform_state \<Rightarrow> 'q DownloadRequest list" where
  "attempts tid s = map snd (filter (\<lambda>c. fst c = tid) (run_calls s))"

text \<open>A worker that throws on every attempt: each call is rejected, each delay elapses.\<close>

definition always_failing :: "nat \<Rightarrow> real list \<Rightarrow> ('q, 'a, 'e) event list" where
  "always_failing tid us = concat (map (\<lambda>u. [RunRejected tid u, TimerFired tid]) us)"

text \<open>
  One invocation of \<open>_write\<close> alone, followed from its first await to its return: the
  \<open>k\<close>-th call of \<open>downloader.run\<close> resolves or rejects as the worker decides, and after a
  rejection the delay elapses. The loop of \<open>_write\<close> has no bound that is known beforehand;
  \<open>None\<close> is the invocation that never returns.
\<close>

datatype ('a, 'e) outcome = Resolves "('a, 'e) DownloadQueryBase" | Rejects real

partial_function (option) write_alone ::
    "(nat \<Rightarrow> ('a, 'e) outcome) \<Rightarrow> nat \<Rightarrow> ('q, 'a, 'e) transform_state \<Rightarrow> ('q, 'a, 'e) transform_state option" where
  "write_alone worker k s =
     (if awaiting 0 AwaitingRun s
      then (case worker k of
              Resolves r \<Rightarrow> Some (run_resolved 0 r s)
            | Rejects u \<Rightarrow> write_alone worker (Suc k) (timer_fired 0 (run_rejected 0 u s)))
      else Some s)"

text \<open>Predicates used to state the properties of the transform.\<close>

definition in_flight :: "('q, 'a, 'e) transform_state \<Rightarrow> nat" where
  "in_flight s = length (filter (\<lambda>t. phase t \<noteq> Returned) (tasks s))"

definition counter_ok :: "('q, 'a, 'e) transform_state \<Rightarrow> bool" where
  "counter_ok s =
     (runningTasks s = int (in_flight s)
      \<and> list_all (\<lambda>t. retry t \<le> 0) (tasks s)
      \<and> (EndOfStream \<in> set (pushed s) \<longrightarrow> receivedFinal s \<and> runningTasks s = 0))"

definition cache_flags_ok :: "('q, 'a, 'e) transform_state \<Rightarrow> bool" where
  "cache_flags_ok s = (\<forall>tid.
      if tid < length (tasks s)
      then \<exists>n. attempts tid s =
             (params (tasks s ! tid))\<lparr>useCache := True\<rparr>
             # replicate n ((params (tasks s ! tid))\<lparr>useCache := False\<rparr>)
      else attempts tid s = [])"

definition drained :: "('q, 'a, 'e) transform_state \<Rightarrow> bool" where
  "drained s = (receivedFinal s \<and> list_all (\<lambda>t. phase t = Returned) (tasks s))"

section \<open>The \<open>Query\<close> record\<close>

text \<open>
  A JavaScript value as far as the stages look at it. TypeScript's annotations are erased
  at run time and the declarations of \<open>Query\<close> and \<open>TownMatchingInfo\<close> are not among the
  sources, so a field may hold any of these. Numbers are the finite ones; \<open>NaN\<close> and the
  infinities are not represented.
\<close>

datatype js_value = Undefined | Null | Num real | Str string

text \<open>The values that \<open>!v\<close>, \<open>v || w\<close> and \<open>v ? a : b\<close> treat as false.\<close>

fun falsy :: "js_value \<Rightarrow> bool" where
  "falsy Undefined = True"
| "falsy Null = True"
| "falsy (Num x) = (x = 0)"
| "falsy (Str s) = (s = [])"

text \<open>
  Modelled from the spec: \<open>MatchLevel\<close> (\<open>@domain/types/geocode/match-level\<close>) is not among
  the sources. The spec gives \<open>match_level\<close> as an ordinal from UNKNOWN, PREFECTURE, CITY,
  MACHIAZA, MACHIAZA_DETAIL, RESIDENTIAL_BLOCK, RESIDENTIAL_DETAIL, PARCEL; \<open>num\<close> is the
  position in that order.
\<close>

datatype MatchLevel =
  UNKNOWN | PREFECTURE | CITY | MACHIAZA | MACHIAZA_DETAIL
  | RESIDENTIAL_BLOCK | RESIDENTIAL_DETAIL | PARCEL

fun num :: "MatchLevel \<Rightarrow> nat" where
  "num UNKNOWN = 0"
| "num PREFECTURE = 1"
| "num CITY = 2"
| "num MACHIAZA = 3"
| "num MACHIAZA_DETAIL = 4"
| "num RESIDENTIAL_BLOCK = 5"
| "num RESIDENTIAL_DETAIL = 6"
| "num PARCEL = 7"

text \<open>
  Modelled from the spec: the \<open>Query\<close> class (\<open>models/query\<close>) is not among the sources; the
  fields are those of the spec's data model, which are also the ones the two transforms
  read and write. \<open>'cn\<close> is the type of a \<open>CharNode\<close> chain (not among the sources either);
  \<open>tempAddress\<close> is a chain or \<open>undefined\<close>. \<open>input\<close> stands for \<open>input.data.address\<close>.
\<close>

record 'cn Query =
  input :: js_value
  tempAddress :: "'cn option"
  match_level :: MatchLevel
  coordinate_level :: MatchLevel
  pref_key :: js_value
  city_key :: js_value
  town_key :: js_value
  parcel_key :: js_value
  rsdtblk_key :: js_value
  rsdtdsp_key :: js_value
  lg_code :: js_value
  pref :: js_value
  county :: js_value
  city :: js_value
  ward :: js_value
  oaza_cho :: js_value
  chome :: js_value
  koaza :: js_value
  machiaza_id :: js_value
  block :: js_value
  block_id :: js_value
  rsdt_num :: js_value
  rsdt_id :: js_value
  rsdt_num2 :: js_value
  rsdt2_id :: js_value
  rsdt_addr_flg :: js_value
  prc_num1 :: js_value
  prc_num2 :: js_value
  prc_num3 :: js_value
  prc_id :: js_value
  rep_lat :: js_value
  rep_lon :: js_value
  matchedCnt :: nat
  startTime :: real

text \<open>
  Modelled from the spec: a row of the town table, \<open>TownMatchingInfo\<close>, with the fields the
  spec lists for it. The field names carry the prefix \<open>t_\<close> because a record field of
  this name exists already.
\<close>

record TownMatchingInfo =
  t_key :: string
  t_pref_key :: js_value
  t_city_key :: js_value
  t_town_key :: js_value
  t_rsdt_addr_flg :: js_value
  t_rep_lat :: js_value
  t_rep_lon :: js_value
  t_koaza :: js_value
  t_pref :: js_value
  t_county :: js_value
  t_city :: js_value
  t_ward :: js_value
  t_lg_code :: js_value
  t_oaza_cho :: js_value
  t_machiaza_id :: js_value
  t_chome :: js_value

text \<open>
  Modelled from the spec: one result of \<open>TrieAddressFinder.find\<close>, a triple of \<open>info\<close> (the
  row at the terminal, or \<open>undefined\<close>), \<open>depth\<close> (characters consumed) and \<open>unmatched\<close>
  (the rest of the chain, or \<open>undefined\<close>).
\<close>

record 'cn TrieFinderResult =
  info :: "TownMatchingInfo option"
  depth :: nat
  unmatched :: "'cn option"

section \<open>The Tokyo-23-ward stage: \<open>Tokyo23TownTranform\<close>\<close>

text \<open>
  What the stage imports and the sources do not contain, taken as parameters: the three
  string operators \<open>toHiragana\<close>, \<open>kan2num\<close>, \<open>jisKanji\<close> and their \<open>CharNode\<close> variants; the
  replacement \<open>replaceAll\<close> of lines 148 and 156, which rewrites a run of digits, an
  optional \<open>DASH\<close>, one or more of six suffix characters and an optional particle to the
  digits and a \<open>DASH\<close>, on a string and on a chain (\<open>RegExpEx\<close>, \<open>DASH\<close> and
  \<open>CharNode.replaceAll\<close> are not among the sources); and \<open>TrieAddressFinder\<close>: \<open>trie_find\<close>
  is \<open>find\<close> with \<open>extraChallenges\<close> and \<open>partialMatches\<close> as on lines 95-96, on a trie
  that holds the given entries in the order of their \<open>append\<close>. \<open>find\<close> returns an array,
  or a value that \<open>!searchResults\<close> takes for false (\<open>None\<close>).
\<close>

record 'cn externals =
  toHiragana :: "string \<Rightarrow> string"
  kan2num :: "string \<Rightarrow> string"
  jisKanji :: "string \<Rightarrow> string"
  suffixStrip :: "string \<Rightarrow> string"
  toHiraganaForCharNode :: "'cn option \<Rightarrow> 'cn option"
  kan2numForCharNode :: "'cn option \<Rightarrow> 'cn option"
  jisKanjiForCharNode :: "'cn option \<Rightarrow> 'cn option"
  suffixStripForCharNode :: "'cn \<Rightarrow> 'cn option"
  trie_find :: "(string \<times> TownMatchingInfo) list \<Rightarrow> 'cn option \<Rightarrow> 'cn TrieFinderResult list option"

text \<open>\<open>normalizeStr\<close> (part 001, lines 137-151): four assignments to \<open>address\<close>, in this order.\<close>

definition normalizeStr :: "'cn externals \<Rightarrow> string \<Rightarrow> string" where
  "normalizeStr im address0 =
     (let address1 = toHiragana im address0;
          address2 = kan2num im address1;
          address3 = jisKanji im address2;
          address4 = suffixStrip im address3
      in address4)"

text \<open>
  \<open>normalizeCharNode\<close> (lines 153-168): \<open>address?.replaceAll(...)\<close> is \<open>undefined\<close> for an
  \<open>undefined\<close> address; the three functions are called in any case.
\<close>

definition normalizeCharNode :: "'cn externals \<Rightarrow> 'cn option \<Rightarrow> 'cn option" where
  "normalizeCharNode im address0 =
     (let address1 = (case address0 of None \<Rightarrow> None | Some a \<Rightarrow> suffixStripForCharNode im a);
          address2 = toHiraganaForCharNode im address1;
          address3 = kan2numForCharNode im address2;
          address4 = jisKanjiForCharNode im address3
      in address4)"

text \<open>
  The object: the trie (the entries appended so far, in order), whether a logger was given,
  the flag \<open>initialized\<close> (here \<open>stage_initialized\<close>, since the controllers have a variable of
  that name), and the callback handed to \<open>setImmediate\<close> as long as it has not run,
  represented by the towns it closes over.
\<close>

record Tokyo23TownTranform =
  tokyo23TownTrie :: "(string \<times> TownMatchingInfo) list"
  logger :: bool
  stage_initialized :: bool
  immediate :: "TownMatchingInfo list option"

text \<open>The constructor (part 001, lines 44-68): an empty trie, and the callback scheduled.\<close>

definition Tokyo23TownTranform_new :: "TownMatchingInfo list \<Rightarrow> bool \<Rightarrow> Tokyo23TownTranform" where
  "Tokyo23TownTranform_new tokyo23towns lg =
     \<lparr>tokyo23TownTrie = [], logger = lg, stage_initialized = False, immediate = Some tokyo23towns\<rparr>"

text \<open>
  The event loop runs the scheduled callback (lines 58-67), once: every town is appended
  under its normalised key, then \<open>initialized\<close> is set. With nothing scheduled nothing
  happens.
\<close>

definition run_immediate :: "'cn externals \<Rightarrow> Tokyo23TownTranform \<Rightarrow> Tokyo23TownTranform" where
  "run_immediate im this =
     (case immediate this of
        None \<Rightarrow> this
      | Some tokyo23towns \<Rightarrow>
          this\<lparr>tokyo23TownTrie :=
                 tokyo23TownTrie this @ map (\<lambda>town. (normalizeStr im (t_key town), town)) tokyo23towns,
               stage_initialized := True,
               immediate := None\<rparr>)"

text \<open>
  The wait at the head of \<open>_transform\<close> (lines 75-80):
  \<open>while (!this.initialized) await timers.setTimeout(100)\<close>. While the function is suspended
  the event loop runs what is scheduled, and a callback given to \<open>setImmediate\<close> runs before
  a timer of 100 ms set after it can fire. The loop has no bound of its own: \<open>None\<close> is the
  wait that never ends.
\<close>

partial_function (option) await_initialized ::
    "'cn externals \<Rightarrow> Tokyo23TownTranform \<Rightarrow> Tokyo23TownTranform option" where
  "await_initialized im this =
     (if stage_initialized this then Some this
      else await_initialized im (run_immediate im this))"

text \<open>
  \<open>query.copy({...})\<close> of lines 109-129. Modelled from the spec: \<open>Query.copy\<close> is not among
  the sources; a stage produces a modified copy, the fields named in the argument replaced
  and the others kept.
\<close>

definition copy_hit :: "'cn Query \<Rightarrow> 'cn TrieFinderResult \<Rightarrow> TownMatchingInfo \<Rightarrow> 'cn Query" where
  "copy_hit query searchResult i =
     query\<lparr>pref_key := t_pref_key i,
           city_key := t_city_key i,
           town_key := t_town_key i,
           rsdt_addr_flg := t_rsdt_addr_flg i,
           tempAddress := unmatched searchResult,
           match_level := MACHIAZA_DETAIL,
           coordinate_level := MACHIAZA_DETAIL,
           matchedCnt := matchedCnt query + depth searchResult,
           rep_lat := t_rep_lat i,
           rep_lon := t_rep_lon i,
           koaza := t_koaza i,
           pref := t_pref i,
           county := t_county i,
           city := t_city i,
           ward := t_ward i,
           lg_code := t_lg_code i,
           oaza_cho := t_oaza_cho i,
           machiaza_id := t_machiaza_id i,
           chome := t_chome i\<rparr>"

text \<open>
  \<open>searchResults.forEach\<close> (lines 104-130): what it adds to \<open>results\<close>, or the error it
  throws; a throw leaves the whole of \<open>_transform\<close>.
\<close>

fun forEach_searchResult :: "'cn Query \<Rightarrow> 'cn TrieFinderResult list \<Rightarrow> js_error + 'cn Query list" where
  "forEach_searchResult query [] = Inr []"
| "forEach_searchResult query (searchResult # rest) =
     (case info searchResult of
        None \<Rightarrow> Inl (Error ''searchResult.info is empty'')
      | Some i \<Rightarrow>
          (case forEach_searchResult query rest of
             Inl e \<Rightarrow> Inl e
           | Inr hits \<Rightarrow> Inr (copy_hit query searchResult i # hits)))"

text \<open>The test of lines 85-86: the record is passed on as it is.\<close>

definition skipped :: "'cn Query \<Rightarrow> bool" where
  "skipped query = (tempAddress query = None \<or> num CITY \<le> num (match_level query))"

text \<open>The body of \<open>queries.forEach\<close> for one query (lines 84-130).\<close>

definition transform_query :: "'cn externals \<Rightarrow> Tokyo23TownTranform \<Rightarrow> 'cn Query \<Rightarrow> js_error + 'cn Query list" where
  "transform_query im this query =
     (if skipped query then Inr [query]
      else
        (let target = normalizeCharNode im (tempAddress query) in
         case trie_find im (tokyo23TownTrie this) target of
           None \<Rightarrow> Inr [query]
         | Some searchResults \<Rightarrow>
             if length searchResults = 0 then Inr [query]
             else forEach_searchResult query searchResults))"

fun forEach_query :: "'cn externals \<Rightarrow> Tokyo23TownTranform \<Rightarrow> 'cn Query list \<Rightarrow> js_error + 'cn Query list" where
  "forEach_query im this [] = Inr []"
| "forEach_query im this (query # rest) =
     (case transform_query im this query of
        Inl e \<Rightarrow> Inl e
      | Inr out \<Rightarrow>
          (case forEach_query im this rest of
             Inl e \<Rightarrow> Inl e
           | Inr outs \<Rightarrow> Inr (out @ outs)))"

text \<open>
  \<open>_transform\<close> from line 82 on, with the wait over. After the loop,
  \<open>this.logger?.info(...)\<close> evaluates \<open>results[0].startTime\<close> when a logger is there, which
  throws for an empty \<open>results\<close>; then \<open>callback(null, results)\<close> emits the array.
\<close>

definition transform_results ::
    "'cn externals \<Rightarrow> Tokyo23TownTranform \<Rightarrow> 'cn Query list \<Rightarrow> js_error + 'cn Query list" where
  "transform_results im this queries =
     (case forEach_query im this queries of
        Inl e \<Rightarrow> Inl e
      | Inr results \<Rightarrow>
          if logger this \<and> results = []
          then Inl (TypeError ''Cannot read properties of undefined (reading 'startTime')'')
          else Inr results)"

text \<open>
  \<open>_transform\<close> (lines 70-135): the wait, then the rest. The value is \<open>None\<close> when the wait
  never ends, and otherwise what was thrown or emitted, with the object as it is then.
\<close>

definition Tokyo23TownTranform_transform ::
    "'cn externals \<Rightarrow> Tokyo23TownTranform \<Rightarrow> 'cn Query list
      \<Rightarrow> ((js_error + 'cn Query list) \<times> Tokyo23TownTranform) option" where
  "Tokyo23TownTranform_transform im this queries =
     (case await_initialized im this of
        None \<Rightarrow> None
      | Some this' \<Rightarrow> Some (transform_results im this' queries, this'))"

text \<open>
  An object the constructor has made, at any later time: its callback is still scheduled,
  or it has run. \<open>after_wait\<close> is the object when the wait of \<open>_transform\<close> is over.
\<close>

definition constructed :: "Tokyo23TownTranform \<Rightarrow> bool" where
  "constructed this = (stage_initialized this \<or> immediate this \<noteq> None)"

definition after_wait :: "'cn externals \<Rightarrow> Tokyo23TownTranform \<Rightarrow> Tokyo23TownTranform" where
  "after_wait im this = (if stage_initialized this then this else run_immediate im this)"

text \<open>The search results that reach the stage for one query: none when the query is skipped.\<close>

definition search_results :: "'cn externals \<Rightarrow> Tokyo23TownTranform \<Rightarrow> 'cn Query \<Rightarrow> 'cn TrieFinderResult list" where
  "search_results im this query =
     (if skipped query then []
      else case trie_find im (tokyo23TownTrie this) (normalizeCharNode im (tempAddress query)) of
             None \<Rightarrow> []
           | Some searchResults \<Rightarrow> searchResults)"

text \<open>
  A batch is intact when none of the search results that reach the stage for its queries
  lacks its \<open>info\<close>. \<open>emitted_for\<close> is what the stage is to emit for one query of an intact
  batch: the query itself when there is no search result for it, and otherwise one copy per
  result, in the order of the results.
\<close>

definition intact :: "'cn externals \<Rightarrow> Tokyo23TownTranform \<Rightarrow> 'cn Query list \<Rightarrow> bool" where
  "intact im this queries =
     list_all (\<lambda>query. list_all (\<lambda>r. info r \<noteq> None) (search_results im this query)) queries"

definition emitted_for :: "'cn externals \<Rightarrow> Tokyo23TownTranform \<Rightarrow> 'cn Query \<Rightarrow> 'cn Query list" where
  "emitted_for im this query =
     (if search_results im this query = [] then [query]
      else map (\<lambda>r. copy_hit query r (the (info r))) (search_results im this query))"

text \<open>Invariant Q1 of the data model.\<close>

definition Q1 :: "'cn Query \<Rightarrow> bool" where
  "Q1 query = (num (coordinate_level query) \<le> num (match_level query))"

text \<open>
  The rule of claim C3 in the claim's words: MACHIAZA_DETAIL exactly when \<open>chome\<close> or \<open>koaza\<close>
  were part of the matched key, MACHIAZA otherwise. A row that has neither a \<open>chome\<close> nor a
  \<open>koaza\<close> has none in its key.
\<close>

definition claimed_match_level :: "TownMatchingInfo \<Rightarrow> MatchLevel" where
  "claimed_match_level i =
     (if falsy (t_chome i) \<and> falsy (t_koaza i) then MACHIAZA else MACHIAZA_DETAIL)"

text \<open>
  Sample values for the parameters, used to run the stage on concrete input. Chains are
  plain strings here, the operators leave their argument as it is, and the finder returns
  one result for every entry whose key is a prefix of the target, in the order of the
  entries. \<open>tracing_externals\<close> has operators that append a letter each, which shows the
  order of application; \<open>corrupt_externals\<close> has a finder that returns a result without
  \<open>info\<close>.
\<close>

definition prefix_find :: "(string \<times> TownMatchingInfo) list \<Rightarrow> string option \<Rightarrow> string TrieFinderResult list option" where
  "prefix_find entries target =
     (case target of
        None \<Rightarrow> None
      | Some t \<Rightarrow>
          Some (concat (map (\<lambda>(k, town).
            if take (length k) t = k
            then [\<lparr>info = Some town, depth = length k, unmatched = Some (drop (length k) t)\<rparr>]
            else []) entries)))"

definition sample_externals :: "string externals" where
  "sample_externals =
     \<lparr>toHiragana = (\<lambda>s. s), kan2num = (\<lambda>s. s), jisKanji = (\<lambda>s. s), suffixStrip = (\<lambda>s. s),
      toHiraganaForCharNode = (\<lambda>c. c), kan2numForCharNode = (\<lambda>c. c),
      jisKanjiForCharNode = (\<lambda>c. c), suffixStripForCharNode = Some,
      trie_find = prefix_find\<rparr>"

definition tracing_externals :: "string externals" where
  "tracing_externals =
     \<lparr>toHiragana = (\<lambda>s. s @ ''H''), kan2num = (\<lambda>s. s @ ''K''), jisKanji = (\<lambda>s. s @ ''J''),
      suffixStrip = (\<lambda>s. s @ ''S''),
      toHiraganaForCharNode = map_option (\<lambda>s. s @ ''H''),
      kan2numForCharNode = map_option (\<lambda>s. s @ ''K''),
      jisKanjiForCharNode = map_option (\<lambda>s. s @ ''J''),
      suffixStripForCharNode = (\<lambda>s. Some (s @ ''S'')),
      trie_find = prefix_find\<rparr>"

definition corrupt_externals :: "string externals" where
  "corrupt_externals =
     sample_externals\<lparr>trie_find := (\<lambda>entries target. Some [\<lparr>info = None, depth = 0, unmatched = target\<rparr>])\<rparr>"

definition sample_town :: TownMatchingInfo where
  "sample_town =
     \<lparr>t_key = ''hayabusacho'', t_pref_key = Num 13, t_city_key = Num 13101, t_town_key = Num 131010027,
      t_rsdt_addr_flg = Num 1, t_rep_lat = Num 35, t_rep_lon = Num 139, t_koaza = Undefined,
      t_pref = Str ''tokyo-to'', t_county = Undefined, t_city = Str ''chiyoda-ku'', t_ward = Undefined,
      t_lg_code = Str ''131016'', t_oaza_cho = Str ''hayabusacho'', t_machiaza_id = Str ''0027000'',
      t_chome = Undefined\<rparr>"

definition sample_query :: "string Query" where
  "sample_query =
     \<lparr>input = Str ''hayabusacho 4-2'', tempAddress = Some ''hayabusacho 4-2'',
      match_level = UNKNOWN, coordinate_level = UNKNOWN,
      pref_key = Undefined, city_key = Undefined, town_key = Undefined, parcel_key = Undefined,
      rsdtblk_key = Undefined, rsdtdsp_key = Undefined, lg_code = Undefined, pref = Undefined,
      county = Undefined, city = Undefined, ward = Undefined, oaza_cho = Undefined,
      chome = Undefined, koaza = Undefined, machiaza_id = Undefined, block = Undefined,
      block_id = Undefined, rsdt_num = Undefined, rsdt_id = Undefined, rsdt_num2 = Undefined,
      rsdt2_id = Undefined, rsdt_addr_flg = Undefined, prc_num1 = Undefined, prc_num2 = Undefined,
      prc_num3 = Undefined, prc_id = Undefined, rep_lat = Null, rep_lon = Null,
      matchedCnt = 0, startTime = 0\<rparr>"

definition resolved_query :: "string Query" where
  "resolved_query =
     sample_query\<lparr>tempAddress := Some ''1-2'', match_level := CITY, pref := Str ''osaka-fu'',
                  city := Str ''sakai-shi''\<rparr>"

definition sample_stage :: Tokyo23TownTranform where
  "sample_stage = run_immediate sample_externals (Tokyo23TownTranform_new [sample_town] True)"

definition sample_hit :: "string TrieFinderResult" where
  "sample_hit = \<lparr>info = Some sample_town, depth = 11, unmatched = Some '' 4-2''\<rparr>"

section \<open>The JSON formatter: \<open>JsonTransform\<close>\<close>

text \<open>
  The object literal that \<open>_transform\<close> builds is a tree of named values. What the sources
  do not contain is taken as a parameter: the constants \<open>BLANK_CHAR\<close> and \<open>BREAK_AT_EOF\<close>,
  the built-in \<open>JSON.stringify\<close>, \<open>CharNode.toOriginalString\<close>, the getter \<open>formatted\<close> of
  \<open>Query\<close> with its \<open>address\<close> and \<open>score\<close>, the \<open>str\<close> of a \<open>MatchLevel\<close>, and \<open>spendTime\<close>,
  the text of \<open>((Date.now() - result.startTime) / 1000).toFixed(2)\<close> for a record at the
  time it is formatted.
\<close>

datatype js_tree = Leaf js_value | Object "(string \<times> js_tree) list"

record 'cn json_externals =
  BLANK_CHAR :: string
  BREAK_AT_EOF :: string
  JSON_stringify :: "js_tree \<Rightarrow> string"
  toOriginalString :: "'cn \<Rightarrow> string"
  formatted_address :: "'cn Query \<Rightarrow> js_value"
  formatted_score :: "'cn Query \<Rightarrow> js_value"
  level_str :: "MatchLevel \<Rightarrow> string"
  spendTime :: "'cn Query \<Rightarrow> string"

text \<open>\<open>v || BLANK_CHAR\<close>, and \<open>v ? v : BLANK_CHAR\<close>, which is the same.\<close>

definition or_blank :: "'cn json_externals \<Rightarrow> js_value \<Rightarrow> js_value" where
  "or_blank ex v = (if falsy v then Str (BLANK_CHAR ex) else v)"

text \<open>Lines 65-109: the object \<open>output\<close>, with the member \<open>debug\<close> added when \<open>options.debug\<close>.\<close>

definition output_object :: "'cn json_externals \<Rightarrow> bool \<Rightarrow> 'cn Query \<Rightarrow> js_tree" where
  "output_object ex debug result =
     Object (
       [(''query'', Object [(''input'', Leaf (input result))]),
        (''result'', Object
          [(''output'', Leaf (formatted_address ex result)),
           (''score'', Leaf (formatted_score ex result)),
           (''other'', Leaf (or_blank ex
              (case tempAddress result of None \<Rightarrow> Undefined | Some c \<Rightarrow> Str (toOriginalString ex c)))),
           (''match_level'', Leaf (Str (level_str ex (match_level result)))),
           (''lg_code'', Leaf (or_blank ex (lg_code result))),
           (''pref'', Leaf (or_blank ex (pref result))),
           (''county'', Leaf (or_blank ex (county result))),
           (''city'', Leaf (or_blank ex (city result))),
           (''ward'', Leaf (or_blank ex (ward result))),
           (''machiaza_id'', Leaf (or_blank ex (machiaza_id result))),
           (''oaza_cho'', Leaf (or_blank ex (oaza_cho result))),
           (''chome'', Leaf (or_blank ex (chome result))),
           (''koaza'', Leaf (or_blank ex (koaza result))),
           (''blk_num'', Leaf (or_blank ex (block result))),
           (''blk_id'', Leaf (or_blank ex (block_id result))),
           (''rsdt_num'', Leaf (or_blank ex (rsdt_num result))),
           (''rsdt_id'', Leaf (or_blank ex (rsdt_id result))),
           (''rsdt_num2'', Leaf (or_blank ex (rsdt_num2 result))),
           (''rsdt2_id'', Leaf (or_blank ex (rsdt2_id result))),
           (''rsdt_addr_flg'', Leaf (rsdt_addr_flg result)),
           (''prc_num1'', Leaf (or_blank ex (prc_num1 result))),
           (''prc_num2'', Leaf (or_blank ex (prc_num2 result))),
           (''prc_num3'', Leaf (or_blank ex (prc_num3 result))),
           (''prc_id'', Leaf (or_blank ex (prc_id result))),
           (''lat'', Leaf (rep_lat result)),
           (''lon'', Leaf (rep_lon result)),
           (''coordinate_level'', Leaf (Str (level_str ex (coordinate_level result))))])]
       @ (if debug
          then [(''debug'', Object
                  [(''pref_key'', Leaf (pref_key result)),
                   (''city_key'', Leaf (city_key result)),
                   (''town_key'', Leaf (town_key result)),
                   (''parcel_key'', Leaf (parcel_key result)),
                   (''rsdtblk_key'', Leaf (rsdtblk_key result)),
                   (''rsdtdsp_key'', Leaf (rsdtdsp_key result)),
                   (''spendTime'', Leaf (Str (spendTime ex result)))])]
          else []))"

text \<open>The fields of the object: \<open>buffer\<close>, \<open>lineNum\<close> and \<open>options.debug\<close>.\<close>

record JsonTransform =
  buffer :: string
  lineNum :: nat
  options_debug :: bool

definition JsonTransform_new :: "bool \<Rightarrow> JsonTransform" where
  "JsonTransform_new debug = \<lparr>buffer = [], lineNum = 0, options_debug = debug\<rparr>"

text \<open>
  \<open>_transform\<close> (json-transform.ts, lines 52-112): the chunk handed to \<open>callback\<close> and the
  object afterwards.
\<close>

definition JsonTransform_transform ::
    "'cn json_externals \<Rightarrow> 'cn Query \<Rightarrow> JsonTransform \<Rightarrow> string \<times> JsonTransform" where
  "JsonTransform_transform ex result this =
     (let out = buffer this;
          this1 = (if lineNum this > 0 then this\<lparr>buffer := '',''\<rparr> else this\<lparr>buffer := ''[''\<rparr>);
          this2 = this1\<lparr>lineNum := lineNum this1 + 1\<rparr>;
          output = output_object ex (options_debug this2) result;
          this3 = this2\<lparr>buffer := buffer this2 @ JSON_stringify ex output\<rparr>
      in (out, this3))"

text \<open>\<open>_final\<close> (lines 114-119): the three chunks it emits.\<close>

definition JsonTransform_final :: "'cn json_externals \<Rightarrow> JsonTransform \<Rightarrow> string list" where
  "JsonTransform_final ex this = [buffer this, '']'', BREAK_AT_EOF ex]"

text \<open>
  The readable side of the stream, as Node's \<open>stream.Readable\<close> keeps it (not among the
  sources): the chunks the destination has received, and the chunks that wait in the
  internal buffer. A chunk given to \<open>callback(null, chunk)\<close> is pushed: while the destination
  takes data it is delivered, behind what waits; while the destination is paused it is put
  at the end of the buffer. \<open>this.emit('data', chunk)\<close> hands the chunk to the destination at
  once, past the buffer. When the stream ends the destination receives what still waits.
\<close>

record readable_side =
  delivered :: "string list"
  pending :: "string list"

definition readable_push :: "bool \<Rightarrow> string \<Rightarrow> readable_side \<Rightarrow> readable_side" where
  "readable_push flowing c rd =
     (if flowing then rd\<lparr>delivered := delivered rd @ pending rd @ [c], pending := []\<rparr>
      else rd\<lparr>pending := pending rd @ [c]\<rparr>)"

definition emit_data :: "readable_side \<Rightarrow> string \<Rightarrow> readable_side" where
  "emit_data rd c = rd\<lparr>delivered := delivered rd @ [c]\<rparr>"

text \<open>
  A stream of records written one by one; with each record comes whether the destination
  takes data when the chunk of that call is pushed.
\<close>

fun write_all ::
    "'cn json_externals \<Rightarrow> ('cn Query \<times> bool) list \<Rightarrow> JsonTransform \<Rightarrow> readable_side
      \<Rightarrow> JsonTransform \<times> readable_side" where
  "write_all ex [] this rd = (this, rd)"
| "write_all ex ((result, flowing) # rest) this rd =
     (case JsonTransform_transform ex result this of
        (out, this') \<Rightarrow> write_all ex rest this' (readable_push flowing out rd))"

text \<open>
  Everything the destination receives for a finite sequence of records, in the order it
  receives it: the writes, the three chunks of \<open>_final\<close>, the end of the stream.
\<close>

definition emitted :: "'cn json_externals \<Rightarrow> bool \<Rightarrow> ('cn Query \<times> bool) list \<Rightarrow> string list" where
  "emitted ex debug writes =
     (case write_all ex writes (JsonTransform_new debug) \<lparr>delivered = [], pending = []\<rparr> of
        (this, rd) \<Rightarrow>
          (let rd' = foldl emit_data rd (JsonTransform_final ex this)
           in delivered rd' @ pending rd'))"

text \<open>
  The output of claim C8 in the claim's words: a JSON array with the text of one object per
  record, in the order of the input, and the line break after it.
\<close>

fun comma_separated :: "string list \<Rightarrow> string" where
  "comma_separated [] = []"
| "comma_separated [x] = x"
| "comma_separated (x # y # zs) = x @ '','' @ comma_separated (y # zs)"

definition json_array_document :: "'cn json_externals \<Rightarrow> bool \<Rightarrow> 'cn Query list \<Rightarrow> string" where
  "json_array_document ex debug results =
     ''['' @ comma_separated (map (\<lambda>r. JSON_stringify ex (output_object ex debug r)) results) @ '']''
     @ BREAK_AT_EOF ex"

text \<open>The member of the \<open>result\<close> object under a name.\<close>

definition result_member :: "js_tree \<Rightarrow> string \<Rightarrow> js_tree option" where
  "result_member output name =
     (case output of
        Object ms \<Rightarrow>
          (case map_of ms ''result'' of
             Some (Object fs) \<Rightarrow> map_of fs name
           | _ \<Rightarrow> None)
      | _ \<Rightarrow> None)"

text \<open>Sample values for the parameters of the formatter: every object is rendered as its input.\<close>

definition sample_json_externals :: "string json_externals" where
  "sample_json_externals =
     \<lparr>BLANK_CHAR = [], BREAK_AT_EOF = ''N'',
      JSON_stringify = (\<lambda>t. case t of
          Object ((_, Object ((_, Leaf (Str a)) # _)) # _) \<Rightarrow> a
        | _ \<Rightarrow> ''{}''),
      toOriginalString = (\<lambda>c. c), formatted_address = (\<lambda>q. Undefined),
      formatted_score = (\<lambda>q. Num 0), level_str = (\<lambda>l. ''level''), spendTime = (\<lambda>q. ''0.00'')\<rparr>"

definition numbered_query :: "string \<Rightarrow> string Query" where
  "numbered_query a = sample_query\<lparr>input := Str a\<rparr>"

section \<open>Properties of the controllers\<close>

lemma downloadDataset_init_sets_flag:
  "initialized (snd (downloadDataset_init outcome s))"
  by (simp add: downloadDataset_init_def setupContainer_def)

lemma geocodingAction_init_sets_flag:
  "initialized (snd (geocodingAction_init outcome s))"
  by (simp add: geocodingAction_init_def setupContainer_def)

text \<open>
  Claim C10, as the code has it. A second call of \<open>geocodingAction.init\<close> or of
  \<open>downloadDataset.init\<close> throws \<open>Already initialized\<close> and does not enter \<open>setupContainer\<close>
  again, whatever the outcome of the first call was; and \<open>downloadDataset.start\<close> throws the
  error that asks for \<open>init()\<close> as long as no call of \<open>init\<close> has been made, that is while
  the module variable still has its initial value.
\<close>

theorem init_at_most_once:
  "fst (geocodingAction_init o2 (snd (geocodingAction_init o1 s))) = Inl (Error ''Already initialized'')
   \<and> snd (geocodingAction_init o2 (snd (geocodingAction_init o1 s))) = snd (geocodingAction_init o1 s)
   \<and> fst (downloadDataset_init o2 (snd (downloadDataset_init o1 s))) = Inl (Error ''Already initialized'')
   \<and> snd (downloadDataset_init o2 (snd (downloadDataset_init o1 s))) = snd (downloadDataset_init o1 s)
   \<and> downloadDataset_start body module_initial =
       (Inl (Error ''Must run init() or initForTest() before involving this function''), module_initial)"
proof -
  have g: "initialized (snd (geocodingAction_init o1 s))"
    by (rule geocodingAction_init_sets_flag)
  have d: "initialized (snd (downloadDataset_init o1 s))"
    by (rule downloadDataset_init_sets_flag)
  have s: "\<not> initialized module_initial"
    by (simp add: module_initial_def)
  show ?thesis
    using g d s
    by (simp add: geocodingAction_init_def downloadDataset_init_def downloadDataset_start_def)
qed

text \<open>
  Claim C10 as stated fails when the first \<open>init\<close> does not succeed: the flag is set before
  \<open>setupContainer\<close> is awaited, so after an \<open>init\<close> whose \<open>setupContainer\<close> rejected,
  \<open>start\<close> passes its guard and runs its body, although no \<open>init\<close> has succeeded.
\<close>

theorem start_after_failed_init:
  "fst (downloadDataset_init (Some (Error ''ENOENT'')) module_initial) = Inl (Error ''ENOENT'')
   \<and> fst (downloadDataset_start (Inl (Error ''unregistered dependency token''))
         (snd (downloadDataset_init (Some (Error ''ENOENT'')) module_initial)))
       = Inl (Error ''unregistered dependency token'')
   \<and> fst (downloadDataset_start (Inl (Error ''unregistered dependency token''))
         (snd (downloadDataset_init (Some (Error ''ENOENT'')) module_initial)))
       \<noteq> Inl (Error ''Must run init() or initForTest() before involving this function'')"
  by (simp add: downloadDataset_init_def downloadDataset_start_def setupContainer_def
      module_initial_def)

section \<open>Properties of the download fabric\<close>

lemma always_failing_snoc:
  "always_failing tid (us @ [u]) = always_failing tid us @ [RunRejected tid u, TimerFired tid]"
  by (simp add: always_failing_def)

lemma always_failing_state:
  "foldl step (DownloadTransform_write p transform_initial) (always_failing 0 us) =
   \<lparr>receivedFinal = False, runningTasks = 1,
     tasks = [\<lparr>retry = - int (length us), params = p\<lparr>useCache := (us = [])\<rparr>, phase = AwaitingRun\<rparr>],
     pushed = [],
     run_calls = (0, p\<lparr>useCache := True\<rparr>) # replicate (length us) (0, p\<lparr>useCache := False\<rparr>),
     delays = map (\<lambda>u. (0, u * 5000 + 100)) us\<rparr>"
proof (induction us rule: rev_induct)
  case Nil
  show ?case
    by (simp add: always_failing_def DownloadTransform_write_def transform_initial_def
        loop_head_def Let_def)
next
  case (snoc u us)
  show ?case
    unfolding always_failing_snoc foldl_append snoc.IH
    by (simp add: awaiting_def run_rejected_def timer_fired_def loop_head_def Let_def
        replicate_append_same)
qed

lemma run_events_write_first:
  "run_events (Write p # evs) = foldl step (DownloadTransform_write p transform_initial) evs"
  by (simp add: run_events_def transform_initial_def)

lemma six_attempts_after_five_failures:
  "length (attempts 0 (run_events
      (Write \<lparr>useCache = False, request = ()\<rparr> # always_failing 0 [0, 1/2, 1/4, 3/4, 1/8]))) = 6"
  unfolding run_events_write_first always_failing_state
  by (simp add: attempts_def)

lemma delay_between_attempts:
  assumes "0 \<le> u" and "u < 1"
  shows "\<exists>d. delays (run_rejected tid u s) = delays s @ [(tid, d)] \<and> 100 \<le> d \<and> d < 5100"
  using assms by (simp add: run_rejected_def Let_def)

lemma loop_exit_is_silent:
  assumes "5 \<le> retry (tasks s ! tid)"
  shows "pushed (loop_head tid s) = pushed s \<and> runningTasks (loop_head tid s) = runningTasks s
    \<and> run_calls (loop_head tid s) = run_calls s"
  using assms by (simp add: loop_head_def Let_def)

lemma write_alone_resolved:
  "awaiting 0 AwaitingRun s \<Longrightarrow> worker k = Resolves r \<Longrightarrow>
     write_alone worker k s = Some (run_resolved 0 r s)"
  by (subst write_alone.simps) simp

lemma retry_round_keeps_waiting:
  assumes "awaiting 0 AwaitingRun s" and "retry (tasks s ! 0) \<le> 0"
  shows "awaiting 0 AwaitingRun (timer_fired 0 (run_rejected 0 u s))
    \<and> retry (tasks (timer_fired 0 (run_rejected 0 u s)) ! 0) \<le> 0"
  using assms
  by (simp add: awaiting_def run_rejected_def timer_fired_def loop_head_def Let_def)

lemma write_alone_returns:
  assumes "write_alone worker k s = Some s'"
    and "awaiting 0 AwaitingRun s" and "retry (tasks s ! 0) \<le> 0"
  shows "\<exists>j r. k \<le> j \<and> worker j = Resolves r"
proof -
  have "awaiting 0 AwaitingRun s \<and> retry (tasks s ! 0) \<le> 0 \<longrightarrow> (\<exists>j r. k \<le> j \<and> worker j = Resolves r)"
  proof (rule write_alone.raw_induct
      [where P = "\<lambda>w k s _. awaiting 0 AwaitingRun s \<and> retry (tasks s ! 0) \<le> 0
                    \<longrightarrow> (\<exists>j r. k \<le> j \<and> w j = Resolves r)", OF _ assms(1)])
    fix f :: "(nat \<Rightarrow> ('b, 'c) outcome) \<Rightarrow> nat \<Rightarrow> ('a, 'b, 'c) transform_state
        \<Rightarrow> ('a, 'b, 'c) transform_state option"
      and w k s y
    assume ih: "\<And>w k s y. f w k s = Some y \<Longrightarrow>
        awaiting 0 AwaitingRun s \<and> retry (tasks s ! 0) \<le> 0 \<longrightarrow> (\<exists>j r. k \<le> j \<and> w j = Resolves r)"
      and eq: "(if awaiting 0 AwaitingRun s
          then case w k of Resolves r \<Rightarrow> Some (run_resolved 0 r s)
               | Rejects u \<Rightarrow> f w (Suc k) (timer_fired 0 (run_rejected 0 u s))
          else Some s) = Some y"
    show "awaiting 0 AwaitingRun s \<and> retry (tasks s ! 0) \<le> 0 \<longrightarrow> (\<exists>j r. k \<le> j \<and> w j = Resolves r)"
    proof
      assume a: "awaiting 0 AwaitingRun s \<and> retry (tasks s ! 0) \<le> 0"
      show "\<exists>j r. k \<le> j \<and> w j = Resolves r"
      proof (cases "w k")
        case (Resolves r)
        then show ?thesis by blast
      next
        case (Rejects u)
        with eq a have "f w (Suc k) (timer_fired 0 (run_rejected 0 u s)) = Some y" by simp
        from ih [OF this] retry_round_keeps_waiting [of s u] a
        obtain j r where "Suc k \<le> j" and "w j = Resolves r" by blast
        then have "k \<le> j \<and> w j = Resolves r" by simp
        then show ?thesis by blast
      qed
    qed
  qed
  with assms(2,3) show ?thesis by blast
qed

lemma write_never_returns:
  assumes "\<And>k. \<exists>u. worker k = Rejects u"
  shows "write_alone worker 0 (DownloadTransform_write p transform_initial) = None"
proof (cases "write_alone worker 0 (DownloadTransform_write p transform_initial)")
  case None
  then show ?thesis .
next
  case (Some s')
  have a: "awaiting 0 AwaitingRun (DownloadTransform_write p transform_initial)"
    and r: "retry (tasks (DownloadTransform_write p transform_initial) ! 0) \<le> 0"
    by (simp_all add: awaiting_def DownloadTransform_write_def transform_initial_def
        loop_head_def Let_def)
  from write_alone_returns [OF Some a r] obtain j r' where "worker j = Resolves r'" by blast
  with assms [of j] show ?thesis by auto
qed

text \<open>
  Claim C1 at a request whose worker throws on every attempt. The catch block decrements
  \<open>retry\<close>, so the test \<open>retry < 5\<close> never fails: after \<open>n\<close> rejections (each followed by
  its delay) the invocation has made \<open>n + 1\<close> calls of \<open>downloader.run\<close>, for every \<open>n\<close>, and
  it is waiting for the next result; \<open>retry\<close> is \<open>- n\<close>, nothing has been pushed downstream
  and the task is still counted as running.
\<close>

theorem retry_never_exhausted:
  "length (attempts 0 (run_events (Write p # always_failing 0 us))) = length us + 1
   \<and> awaiting 0 AwaitingRun (run_events (Write p # always_failing 0 us))
   \<and> retry (tasks (run_events (Write p # always_failing 0 us)) ! 0) = - int (length us)
   \<and> pushed (run_events (Write p # always_failing 0 us)) = []
   \<and> runningTasks (run_events (Write p # always_failing 0 us)) = 1"
  unfolding run_events_write_first always_failing_state
  by (simp add: attempts_def awaiting_def)

lemma loop_head_run_calls:
  "run_calls (loop_head tid s) =
     (if retry (tasks s ! tid) < 5 then run_calls s @ [(tid, params (tasks s ! tid))] else run_calls s)"
  by (simp add: loop_head_def Let_def)

lemma map_params_update:
  "params x = params (xs ! i) \<Longrightarrow> map params (xs[i := x]) = map params xs"
proof (induction xs arbitrary: i)
  case Nil
  then show ?case by simp
next
  case (Cons a xs)
  then show ?case by (cases i) simp_all
qed

lemma params_nth:
  assumes "map params xs' = map params xs" and "i < length xs"
  shows "params (xs' ! i) = params (xs ! i)"
proof -
  have l: "length xs' = length xs" using assms(1) by (rule map_eq_imp_length_eq)
  have "map params xs' ! i = map params xs ! i" using assms(1) by simp
  then show ?thesis using assms(2) l by simp
qed

lemma cache_flags_ok_in:
  assumes "cache_flags_ok s" and "tid < length (tasks s)"
  shows "\<exists>n. attempts tid s =
      (params (tasks s ! tid))\<lparr>useCache := True\<rparr>
      # replicate n ((params (tasks s ! tid))\<lparr>useCache := False\<rparr>)"
proof -
  from assms(1) have "if tid < length (tasks s)
      then \<exists>n. attempts tid s =
             (params (tasks s ! tid))\<lparr>useCache := True\<rparr>
             # replicate n ((params (tasks s ! tid))\<lparr>useCache := False\<rparr>)
      else attempts tid s = []"
    unfolding cache_flags_ok_def by (rule spec)
  with assms(2) show ?thesis by simp
qed

lemma cache_flags_ok_out:
  assumes "cache_flags_ok s" and "\<not> tid < length (tasks s)"
  shows "attempts tid s = []"
proof -
  from assms(1) have "if tid < length (tasks s)
      then \<exists>n. attempts tid s =
             (params (tasks s ! tid))\<lparr>useCache := True\<rparr>
             # replicate n ((params (tasks s ! tid))\<lparr>useCache := False\<rparr>)
      else attempts tid s = []"
    unfolding cache_flags_ok_def by (rule spec)
  with assms(2) show ?thesis by simp
qed

lemma cache_flags_okI:
  assumes "\<And>tid. tid < length (tasks s) \<Longrightarrow> \<exists>n. attempts tid s =
      (params (tasks s ! tid))\<lparr>useCache := True\<rparr>
      # replicate n ((params (tasks s ! tid))\<lparr>useCache := False\<rparr>)"
    and "\<And>tid. \<not> tid < length (tasks s) \<Longrightarrow> attempts tid s = []"
  shows "cache_flags_ok s"
  unfolding cache_flags_ok_def using assms by simp

lemma cache_flags_ok_same:
  assumes ok: "cache_flags_ok s" and c: "run_calls s' = run_calls s"
    and m: "map params (tasks s') = map params (tasks s)"
  shows "cache_flags_ok s'"
proof (rule cache_flags_okI)
  have l: "length (tasks s') = length (tasks s)" using m by (rule map_eq_imp_length_eq)
  have a: "attempts tid s' = attempts tid s" for tid by (simp add: attempts_def c)
  {
    fix tid assume t: "tid < length (tasks s')"
    then have t': "tid < length (tasks s)" by (simp add: l)
    have "params (tasks s' ! tid) = params (tasks s ! tid)" using m t' by (rule params_nth)
    with cache_flags_ok_in [OF ok t']
    show "\<exists>n. attempts tid s' =
      (params (tasks s' ! tid))\<lparr>useCache := True\<rparr>
      # replicate n ((params (tasks s' ! tid))\<lparr>useCache := False\<rparr>)"
      by (simp add: a)
  next
    fix tid assume "\<not> tid < length (tasks s')"
    then have "\<not> tid < length (tasks s)" by (simp add: l)
    from cache_flags_ok_out [OF ok this] show "attempts tid s' = []" by (simp add: a)
  }
qed

lemma attempts_beyond:
  assumes "cache_flags_ok s"
  shows "attempts (length (tasks s)) s = []"
  by (rule cache_flags_ok_out [OF assms]) simp

lemma write_tasks:
  "tasks (DownloadTransform_write p s) =
     tasks s @ [\<lparr>retry = 0, params = p\<lparr>useCache := True\<rparr>, phase = AwaitingRun\<rparr>]"
  by (simp add: DownloadTransform_write_def loop_head_def Let_def)

lemma write_run_calls:
  "run_calls (DownloadTransform_write p s) = run_calls s @ [(length (tasks s), p\<lparr>useCache := True\<rparr>)]"
  by (simp add: DownloadTransform_write_def loop_head_def Let_def)

lemma write_attempts:
  assumes "cache_flags_ok s"
  shows "attempts tid (DownloadTransform_write p s) =
      (if tid = length (tasks s) then [p\<lparr>useCache := True\<rparr>] else attempts tid s)"
  using attempts_beyond [OF assms] by (simp add: attempts_def write_run_calls)

lemma cache_flags_ok_write:
  assumes ok: "cache_flags_ok s"
  shows "cache_flags_ok (DownloadTransform_write p s)"
proof (rule cache_flags_okI)
  fix tid assume t: "tid < length (tasks (DownloadTransform_write p s))"
  show "\<exists>n. attempts tid (DownloadTransform_write p s) =
      (params (tasks (DownloadTransform_write p s) ! tid))\<lparr>useCache := True\<rparr>
      # replicate n ((params (tasks (DownloadTransform_write p s) ! tid))\<lparr>useCache := False\<rparr>)"
  proof (cases "tid = length (tasks s)")
    case True
    then have "attempts tid (DownloadTransform_write p s) =
      (params (tasks (DownloadTransform_write p s) ! tid))\<lparr>useCache := True\<rparr>
      # replicate 0 ((params (tasks (DownloadTransform_write p s) ! tid))\<lparr>useCache := False\<rparr>)"
      by (simp add: write_attempts [OF ok] write_tasks)
    then show ?thesis by blast
  next
    case False
    with t have t': "tid < length (tasks s)" by (simp add: write_tasks)
    from cache_flags_ok_in [OF ok t'] False t' show ?thesis
      by (simp add: write_attempts [OF ok] write_tasks nth_append)
  qed
next
  fix tid assume "\<not> tid < length (tasks (DownloadTransform_write p s))"
  then have a: "\<not> tid < length (tasks s)" and b: "tid \<noteq> length (tasks s)"
    by (simp_all add: write_tasks)
  from cache_flags_ok_out [OF ok a] b show "attempts tid (DownloadTransform_write p s) = []"
    by (simp add: write_attempts [OF ok])
qed

lemma timer_tasks:
  assumes "i < length (tasks s)"
  shows "tasks (timer_fired i s) =
      (tasks s)[i := (tasks s ! i)\<lparr>params := (params (tasks s ! i))\<lparr>useCache := False\<rparr>,
                                   phase := (if retry (tasks s ! i) < 5 then AwaitingRun else Returned)\<rparr>]"
  using assms by (simp add: timer_fired_def loop_head_def Let_def)

lemma timer_run_calls:
  assumes "i < length (tasks s)"
  shows "run_calls (timer_fired i s) =
     (if retry (tasks s ! i) < 5
      then run_calls s @ [(i, (params (tasks s ! i))\<lparr>useCache := False\<rparr>)] else run_calls s)"
  using assms by (simp add: timer_fired_def Let_def loop_head_run_calls)

lemma cache_flags_ok_timer:
  assumes ok: "cache_flags_ok s" and aw: "awaiting i AwaitingTimer s"
  shows "cache_flags_ok (timer_fired i s)"
proof (rule cache_flags_okI)
  have i: "i < length (tasks s)" using aw by (simp add: awaiting_def)
  let ?P = "params (tasks s ! i)"
  have len: "length (tasks (timer_fired i s)) = length (tasks s)"
    by (simp add: timer_tasks [OF i])
  have par: "params (tasks (timer_fired i s) ! tid) =
      (if tid = i then ?P\<lparr>useCache := False\<rparr> else params (tasks s ! tid))"
    if "tid < length (tasks s)" for tid
    using that i by (simp add: timer_tasks [OF i] nth_list_update)
  have att: "attempts tid (timer_fired i s) =
      (if tid = i \<and> retry (tasks s ! i) < 5 then attempts i s @ [?P\<lparr>useCache := False\<rparr>]
       else attempts tid s)" for tid
    by (simp add: attempts_def timer_run_calls [OF i])
  {
    fix tid assume "tid < length (tasks (timer_fired i s))"
    then have t: "tid < length (tasks s)" by (simp add: len)
    from cache_flags_ok_in [OF ok t] obtain n where
      n: "attempts tid s = (params (tasks s ! tid))\<lparr>useCache := True\<rparr>
            # replicate n ((params (tasks s ! tid))\<lparr>useCache := False\<rparr>)" by blast
    show "\<exists>n. attempts tid (timer_fired i s) =
        (params (tasks (timer_fired i s) ! tid))\<lparr>useCache := True\<rparr>
        # replicate n ((params (tasks (timer_fired i s) ! tid))\<lparr>useCache := False\<rparr>)"
    proof (cases "tid = i")
      case other: False
      with n t show ?thesis by (simp add: att par)
    next
      case same: True
      show ?thesis
      proof (cases "retry (tasks s ! i) < 5")
        case True
        have "attempts tid (timer_fired i s) =
            ?P\<lparr>useCache := True\<rparr> # replicate (Suc n) (?P\<lparr>useCache := False\<rparr>)"
          using n same True by (simp add: att replicate_append_same)
        then have "attempts tid (timer_fired i s) =
            (params (tasks (timer_fired i s) ! tid))\<lparr>useCache := True\<rparr>
            # replicate (Suc n) ((params (tasks (timer_fired i s) ! tid))\<lparr>useCache := False\<rparr>)"
          using same t by (simp add: par)
        then show ?thesis by blast
      next
        case False
        have "attempts tid (timer_fired i s) =
            (params (tasks (timer_fired i s) ! tid))\<lparr>useCache := True\<rparr>
            # replicate n ((params (tasks (timer_fired i s) ! tid))\<lparr>useCache := False\<rparr>)"
          using n same False t by (simp add: att par)
        then show ?thesis by blast
      qed
    qed
  next
    fix tid assume "\<not> tid < length (tasks (timer_fired i s))"
    then have t: "\<not> tid < length (tasks s)" by (simp add: len)
    with i have "tid \<noteq> i" by auto
    with cache_flags_ok_out [OF ok t] show "attempts tid (timer_fired i s) = []"
      by (simp add: att)
  }
qed

lemma cache_flags_ok_step: "cache_flags_ok s \<Longrightarrow> cache_flags_ok (step s ev)"
proof (cases ev)
  case (Write p)
  assume "cache_flags_ok s"
  then show ?thesis using Write by (simp add: cache_flags_ok_write)
next
  case (RunResolved i r)
  assume a: "cache_flags_ok s"
  have "run_calls (run_resolved i r s) = run_calls s"
    "map params (tasks (run_resolved i r s)) = map params (tasks s)"
    by (simp_all add: run_resolved_def push_and_return_def Let_def map_params_update)
  then show ?thesis using a RunResolved by (auto intro: cache_flags_ok_same)
next
  case (RunRejected i u)
  assume a: "cache_flags_ok s"
  have "run_calls (run_rejected i u s) = run_calls s"
    "map params (tasks (run_rejected i u s)) = map params (tasks s)"
    by (simp_all add: run_rejected_def Let_def map_params_update)
  then show ?thesis using a RunRejected by (auto intro: cache_flags_ok_same)
next
  case (TimerFired i)
  assume "cache_flags_ok s"
  then show ?thesis using TimerFired by (simp add: cache_flags_ok_timer)
next
  case Final
  assume "cache_flags_ok s"
  then show ?thesis using Final
    by (auto intro: cache_flags_ok_same simp: DownloadTransform_final_def)
qed

lemma cache_flags_ok_foldl: "cache_flags_ok s \<Longrightarrow> cache_flags_ok (foldl step s evs)"
  by (induction evs arbitrary: s) (simp_all add: cache_flags_ok_step)

lemma cache_flags_ok_initial: "cache_flags_ok transform_initial"
  by (simp add: cache_flags_ok_def attempts_def transform_initial_def)

lemma cache_flags_ok_run: "cache_flags_ok (run_events evs)"
  unfolding run_events_def by (rule cache_flags_ok_foldl [OF cache_flags_ok_initial])

lemma attempts_pattern:
  "attempts tid (run_events evs) =
       (if tid < length (tasks (run_events evs))
        then (params (tasks (run_events evs) ! tid))\<lparr>useCache := True\<rparr>
             # replicate (length (attempts tid (run_events evs)) - 1)
                 ((params (tasks (run_events evs) ! tid))\<lparr>useCache := False\<rparr>)
        else [])"
proof (cases "tid < length (tasks (run_events evs))")
  case True
  from cache_flags_ok_in [OF cache_flags_ok_run True]
  obtain n where n: "attempts tid (run_events evs) =
      (params (tasks (run_events evs) ! tid))\<lparr>useCache := True\<rparr>
      # replicate n ((params (tasks (run_events evs) ! tid))\<lparr>useCache := False\<rparr>)"
    by blast
  then have "length (attempts tid (run_events evs)) - 1 = n" by simp
  with n True show ?thesis by simp
next
  case False
  from cache_flags_ok_out [OF cache_flags_ok_run False] False
  show ?thesis by simp
qed

lemma run_events_snoc: "run_events (evs @ evs') = foldl step (run_events evs) evs'"
  by (simp add: run_events_def)

lemma first_attempt:
  assumes "\<not> receivedFinal (run_events evs)"
  shows "attempts (length (tasks (run_events evs))) (run_events (evs @ [Write p])) = [p\<lparr>useCache := True\<rparr>]
    \<and> awaiting (length (tasks (run_events evs))) AwaitingRun (run_events (evs @ [Write p]))"
  using assms
  by (simp add: run_events_snoc write_attempts [OF cache_flags_ok_run] awaiting_def write_tasks)

lemma counter_okI:
  "runningTasks s = int (in_flight s) \<Longrightarrow> list_all (\<lambda>t. retry t \<le> 0) (tasks s)
   \<Longrightarrow> (EndOfStream \<in> set (pushed s) \<Longrightarrow> receivedFinal s \<and> runningTasks s = 0)
   \<Longrightarrow> counter_ok s"
  by (simp add: counter_ok_def)

lemma counter_okD:
  assumes "counter_ok s"
  shows "runningTasks s = int (in_flight s)" and "list_all (\<lambda>t. retry t \<le> 0) (tasks s)"
    and "EndOfStream \<in> set (pushed s) \<Longrightarrow> receivedFinal s \<and> runningTasks s = 0"
  using assms by (simp_all add: counter_ok_def)

lemma filter_update_keep:
  "i < length xs \<Longrightarrow> P (xs ! i) \<Longrightarrow> P x \<Longrightarrow> length (filter P (xs[i := x])) = length (filter P xs)"
proof (induction xs arbitrary: i)
  case Nil
  then show ?case by simp
next
  case (Cons a xs)
  then show ?case by (cases i) simp_all
qed

lemma filter_update_drop:
  "i < length xs \<Longrightarrow> P (xs ! i) \<Longrightarrow> \<not> P x \<Longrightarrow> Suc (length (filter P (xs[i := x]))) = length (filter P xs)"
proof (induction xs arbitrary: i)
  case Nil
  then show ?case by simp
next
  case (Cons a xs)
  then show ?case by (cases i) simp_all
qed

lemma list_all_update: "list_all P xs \<Longrightarrow> P x \<Longrightarrow> list_all P (xs[i := x])"
  by (induction xs arbitrary: i) (auto split: nat.splits)

lemma list_all_nth: "list_all P xs \<Longrightarrow> i < length xs \<Longrightarrow> P (xs ! i)"
  by (simp add: list_all_length)

lemma counter_ok_initial: "counter_ok transform_initial"
  by (simp add: counter_ok_def in_flight_def transform_initial_def)

lemma counter_ok_write:
  assumes "counter_ok s" and "\<not> receivedFinal s"
  shows "counter_ok (DownloadTransform_write p s)"
  using assms
  by (auto simp: counter_ok_def in_flight_def DownloadTransform_write_def loop_head_def Let_def
      nth_append split: if_splits)

lemma counter_ok_resolved:
  assumes ok: "counter_ok s" and aw: "awaiting i AwaitingRun s"
  shows "counter_ok (run_resolved i r s)"
proof -
  have i: "i < length (tasks s)" and ph: "phase (tasks s ! i) \<noteq> Returned"
    using aw by (simp_all add: awaiting_def)
  have cnt: "Suc (in_flight (run_resolved i r s)) = in_flight s"
    unfolding in_flight_def
    using filter_update_drop [of i "tasks s" "\<lambda>t. phase t \<noteq> Returned" "(tasks s ! i)\<lparr>phase := Returned\<rparr>"] i ph
    by (simp add: run_resolved_def push_and_return_def Let_def)
  have rt: "runningTasks (run_resolved i r s) = runningTasks s - 1"
    by (simp add: run_resolved_def push_and_return_def Let_def)
  have fin: "receivedFinal (run_resolved i r s) = receivedFinal s"
    by (simp add: run_resolved_def push_and_return_def Let_def)
  have pos: "runningTasks s \<noteq> 0" using counter_okD(1) [OF ok] cnt by simp
  then have old: "EndOfStream \<notin> set (pushed s)" using counter_okD(3) [OF ok] by blast
  have px: "EndOfStream \<in> set (pushed (run_resolved i r s)) \<longleftrightarrow> (runningTasks s - 1 = 0 \<and> receivedFinal s)"
    using old by (simp add: run_resolved_def push_and_return_def Let_def)
  have ra: "list_all (\<lambda>t. retry t \<le> 0) (tasks (run_resolved i r s))"
    using ok i by (auto simp: counter_ok_def run_resolved_def push_and_return_def Let_def
        intro!: list_all_update dest: list_all_nth)
  have "runningTasks s - 1 = int (in_flight (run_resolved i r s))"
    using counter_okD(1) [OF ok] cnt by simp
  then show ?thesis
    using ra px rt fin by (intro counter_okI) simp_all
qed

lemma counter_ok_rejected:
  assumes ok: "counter_ok s" and aw: "awaiting i AwaitingRun s"
  shows "counter_ok (run_rejected i u s)"
proof -
  have i: "i < length (tasks s)" and ph: "phase (tasks s ! i) \<noteq> Returned"
    using aw by (simp_all add: awaiting_def)
  have r: "retry (tasks s ! i) \<le> 0" using ok i by (auto simp: counter_ok_def dest: list_all_nth)
  have cnt: "in_flight (run_rejected i u s) = in_flight s"
    unfolding in_flight_def
    using filter_update_keep [of i "tasks s" "\<lambda>t. phase t \<noteq> Returned"
        "(tasks s ! i)\<lparr>retry := retry (tasks s ! i) - 1, phase := AwaitingTimer\<rparr>"] i ph
    by (simp add: run_rejected_def Let_def)
  have ra: "list_all (\<lambda>t. retry t \<le> 0) (tasks (run_rejected i u s))"
    using ok r by (auto simp: counter_ok_def run_rejected_def Let_def intro!: list_all_update)
  have same: "runningTasks (run_rejected i u s) = runningTasks s" "pushed (run_rejected i u s) = pushed s"
    "receivedFinal (run_rejected i u s) = receivedFinal s"
    by (simp_all add: run_rejected_def Let_def)
  show ?thesis
    using counter_okD [OF ok] cnt ra same by (intro counter_okI) simp_all
qed

lemma counter_ok_timer:
  assumes ok: "counter_ok s" and aw: "awaiting i AwaitingTimer s"
  shows "counter_ok (timer_fired i s)"
proof -
  have i: "i < length (tasks s)" and ph: "phase (tasks s ! i) \<noteq> Returned"
    using aw by (simp_all add: awaiting_def)
  have r: "retry (tasks s ! i) \<le> 0" using ok i by (auto simp: counter_ok_def dest: list_all_nth)
  then have r5: "retry (tasks s ! i) < 5" by simp
  have tk: "tasks (timer_fired i s) =
      (tasks s)[i := (tasks s ! i)\<lparr>params := (params (tasks s ! i))\<lparr>useCache := False\<rparr>, phase := AwaitingRun\<rparr>]"
    using i r5 by (simp add: timer_fired_def loop_head_def Let_def)
  have cnt: "in_flight (timer_fired i s) = in_flight s"
    unfolding in_flight_def tk
    using filter_update_keep [of i "tasks s" "\<lambda>t. phase t \<noteq> Returned"] i ph by simp
  have ra: "list_all (\<lambda>t. retry t \<le> 0) (tasks (timer_fired i s))"
    unfolding tk using ok r by (auto simp: counter_ok_def intro!: list_all_update)
  have same: "runningTasks (timer_fired i s) = runningTasks s" "pushed (timer_fired i s) = pushed s"
    "receivedFinal (timer_fired i s) = receivedFinal s"
    by (simp_all add: timer_fired_def loop_head_def Let_def)
  show ?thesis
    using counter_okD [OF ok] cnt ra same by (intro counter_okI) simp_all
qed

lemma counter_ok_final:
  assumes ok: "counter_ok s"
  shows "counter_ok (DownloadTransform_final s)"
proof -
  have same: "runningTasks (DownloadTransform_final s) = runningTasks s"
    "pushed (DownloadTransform_final s) = pushed s"
    "tasks (DownloadTransform_final s) = tasks s"
    "in_flight (DownloadTransform_final s) = in_flight s"
    "receivedFinal (DownloadTransform_final s)"
    by (simp_all add: DownloadTransform_final_def in_flight_def)
  show ?thesis
    using counter_okD [OF ok] same by (intro counter_okI) simp_all
qed

lemma counter_ok_step: "counter_ok s \<Longrightarrow> counter_ok (step s ev)"
  by (cases ev)
    (simp_all add: counter_ok_write counter_ok_resolved counter_ok_rejected counter_ok_timer
      counter_ok_final)

lemma counter_ok_foldl: "counter_ok s \<Longrightarrow> counter_ok (foldl step s evs)"
  by (induction evs arbitrary: s) (simp_all add: counter_ok_step)

lemma counter_ok_run: "counter_ok (run_events evs)"
  unfolding run_events_def by (rule counter_ok_foldl [OF counter_ok_initial])

lemma sentinel_only_when_drained:
  "EndOfStream \<in> set (pushed (run_events evs)) \<Longrightarrow>
     receivedFinal (run_events evs) \<and> runningTasks (run_events evs) = 0 \<and> in_flight (run_events evs) = 0"
  using counter_okD [OF counter_ok_run [of evs]] by simp

lemma retry_attempt:
  assumes aw: "awaiting tid AwaitingRun (run_events evs)"
  shows "attempts tid (run_events (evs @ [RunRejected tid u, TimerFired tid])) =
      attempts tid (run_events evs) @ [(params (tasks (run_events evs) ! tid))\<lparr>useCache := False\<rparr>]
    \<and> awaiting tid AwaitingRun (run_events (evs @ [RunRejected tid u, TimerFired tid]))"
proof -
  let ?s = "run_events evs"
  let ?s1 = "run_rejected tid u ?s"
  have i: "tid < length (tasks ?s)" using aw by (simp add: awaiting_def)
  have r: "retry (tasks ?s ! tid) \<le> 0"
    using counter_okD(2) [OF counter_ok_run [of evs]] i by (rule list_all_nth)
  have i1: "tid < length (tasks ?s1)" using i by (simp add: run_rejected_def Let_def)
  have t1: "tasks ?s1 ! tid = (tasks ?s ! tid)\<lparr>retry := retry (tasks ?s ! tid) - 1, phase := AwaitingTimer\<rparr>"
    using i by (simp add: run_rejected_def Let_def)
  have c1: "run_calls ?s1 = run_calls ?s" by (simp add: run_rejected_def Let_def)
  have aw1: "awaiting tid AwaitingTimer ?s1" using i1 t1 by (simp add: awaiting_def)
  have e: "run_events (evs @ [RunRejected tid u, TimerFired tid]) = timer_fired tid ?s1"
    using aw aw1 by (simp add: run_events_snoc)
  have r1: "retry (tasks ?s1 ! tid) < 5" using r t1 by simp
  have "attempts tid (timer_fired tid ?s1) =
      attempts tid ?s @ [(params (tasks ?s ! tid))\<lparr>useCache := False\<rparr>]"
    using r1 t1 by (simp add: attempts_def timer_run_calls [OF i1] c1)
  moreover have "awaiting tid AwaitingRun (timer_fired tid ?s1)"
    using r1 i1 by (simp add: awaiting_def timer_tasks [OF i1])
  ultimately show ?thesis by (simp add: e)
qed

text \<open>
  Claim C7. After any sequence of events: a request that the upstream writes is handed to
  \<open>downloader.run\<close> at once, with \<open>useCache = true\<close>; when a call of an invocation is
  rejected and the delay has elapsed, the invocation calls \<open>downloader.run\<close> again with the
  same request and \<open>useCache = false\<close>; and so the calls of an invocation are its request
  with \<open>useCache = true\<close> once, followed by the request with \<open>useCache = false\<close> only.
\<close>

theorem first_attempt_cached_retries_not:
  "(\<not> receivedFinal (run_events evs) \<longrightarrow>
      attempts (length (tasks (run_events evs))) (run_events (evs @ [Write p])) = [p\<lparr>useCache := True\<rparr>]
      \<and> awaiting (length (tasks (run_events evs))) AwaitingRun (run_events (evs @ [Write p])))
   \<and> (awaiting tid AwaitingRun (run_events evs) \<longrightarrow>
      attempts tid (run_events (evs @ [RunRejected tid u, TimerFired tid])) =
        attempts tid (run_events evs) @ [(params (tasks (run_events evs) ! tid))\<lparr>useCache := False\<rparr>]
      \<and> awaiting tid AwaitingRun (run_events (evs @ [RunRejected tid u, TimerFired tid])))
   \<and> attempts tid (run_events evs) =
       (if tid < length (tasks (run_events evs))
        then (params (tasks (run_events evs) ! tid))\<lparr>useCache := True\<rparr>
             # replicate (length (attempts tid (run_events evs)) - 1)
                 ((params (tasks (run_events evs) ! tid))\<lparr>useCache := False\<rparr>)
        else [])"
proof (intro conjI impI)
  assume "\<not> receivedFinal (run_events evs)"
  from first_attempt [OF this]
  show "attempts (length (tasks (run_events evs))) (run_events (evs @ [Write p])) = [p\<lparr>useCache := True\<rparr>]"
    and "awaiting (length (tasks (run_events evs))) AwaitingRun (run_events (evs @ [Write p]))"
    by simp_all
next
  assume "awaiting tid AwaitingRun (run_events evs)"
  from retry_attempt [OF this]
  show "attempts tid (run_events (evs @ [RunRejected tid u, TimerFired tid])) =
        attempts tid (run_events evs) @ [(params (tasks (run_events evs) ! tid))\<lparr>useCache := False\<rparr>]"
    and "awaiting tid AwaitingRun (run_events (evs @ [RunRejected tid u, TimerFired tid]))"
    by simp_all
next
  show "attempts tid (run_events evs) =
       (if tid < length (tasks (run_events evs))
        then (params (tasks (run_events evs) ! tid))\<lparr>useCache := True\<rparr>
             # replicate (length (attempts tid (run_events evs)) - 1)
                 ((params (tasks (run_events evs) ! tid))\<lparr>useCache := False\<rparr>)
        else [])"
    by (rule attempts_pattern)
qed

lemma one_write_state:
  "(run_events [Write \<lparr>useCache = False, request = ''dataset''\<rparr>] :: (string, unit, unit) transform_state) =
     \<lparr>receivedFinal = False, runningTasks = 1,
       tasks = [\<lparr>retry = 0, params = \<lparr>useCache = True, request = ''dataset''\<rparr>, phase = AwaitingRun\<rparr>],
       pushed = [], run_calls = [(0, \<lparr>useCache = True, request = ''dataset''\<rparr>)], delays = []\<rparr>"
  by (simp add: run_events_def transform_initial_def DownloadTransform_write_def loop_head_def Let_def)

theorem first_attempt_cached_retries_not_witness:
  "\<not> receivedFinal (run_events [] :: (string, unit, unit) transform_state)
   \<and> attempts 0 (run_events [Write \<lparr>useCache = False, request = ''dataset''\<rparr>]
        :: (string, unit, unit) transform_state) = [\<lparr>useCache = True, request = ''dataset''\<rparr>]
   \<and> awaiting 0 AwaitingRun (run_events [Write \<lparr>useCache = False, request = ''dataset''\<rparr>]
        :: (string, unit, unit) transform_state)
   \<and> attempts 0 (run_events [Write \<lparr>useCache = False, request = ''dataset''\<rparr>,
          RunRejected 0 (1 / 2), TimerFired 0] :: (string, unit, unit) transform_state) =
        [\<lparr>useCache = True, request = ''dataset''\<rparr>, \<lparr>useCache = False, request = ''dataset''\<rparr>]
   \<and> awaiting 0 AwaitingRun (run_events [Write \<lparr>useCache = False, request = ''dataset''\<rparr>,
          RunRejected 0 (1 / 2), TimerFired 0] :: (string, unit, unit) transform_state)"
proof -
  have f: "\<not> receivedFinal (run_events [] :: (string, unit, unit) transform_state)"
    by (simp add: run_events_def transform_initial_def)
  have l: "length (tasks (run_events [] :: (string, unit, unit) transform_state)) = 0"
    by (simp add: run_events_def transform_initial_def)
  have a: "awaiting 0 AwaitingRun (run_events [Write \<lparr>useCache = False, request = ''dataset''\<rparr>]
        :: (string, unit, unit) transform_state)"
    by (simp add: one_write_state awaiting_def)
  have b: "attempts 0 (run_events [Write \<lparr>useCache = False, request = ''dataset''\<rparr>]
        :: (string, unit, unit) transform_state) = [\<lparr>useCache = True, request = ''dataset''\<rparr>]"
    by (simp add: one_write_state attempts_def)
  have p: "params (tasks (run_events [Write \<lparr>useCache = False, request = ''dataset''\<rparr>]
        :: (string, unit, unit) transform_state) ! 0) = \<lparr>useCache = True, request = ''dataset''\<rparr>"
    by (simp add: one_write_state)
  from first_attempt_cached_retries_not
    [where evs = "[] :: (string, unit, unit) event list"
      and p = "\<lparr>useCache = False, request = ''dataset''\<rparr>" and tid = 0]
    first_attempt_cached_retries_not
    [where evs = "[Write \<lparr>useCache = False, request = ''dataset''\<rparr>] :: (string, unit, unit) event list"
      and tid = 0 and u = "1 / 2"]
  show ?thesis
    using f l a b p by simp
qed

lemma drained_step: "drained s \<Longrightarrow> step s ev = s"
proof (cases ev)
  case (Write p)
  assume "drained s" then show ?thesis using Write by (simp add: drained_def)
next
  case (RunResolved i r)
  assume "drained s" then show ?thesis using RunResolved
    by (auto simp: drained_def awaiting_def dest: list_all_nth)
next
  case (RunRejected i u)
  assume "drained s" then show ?thesis using RunRejected
    by (auto simp: drained_def awaiting_def dest: list_all_nth)
next
  case (TimerFired i)
  assume "drained s" then show ?thesis using TimerFired
    by (auto simp: drained_def awaiting_def dest: list_all_nth)
next
  case Final
  assume "drained s" then show ?thesis using Final
    by (cases s) (simp add: drained_def DownloadTransform_final_def)
qed

lemma drained_foldl: "drained s \<Longrightarrow> foldl step s evs = s"
  by (induction evs) (simp_all add: drained_step)

lemma final_last_state:
  "run_events [Write p, RunResolved 0 r, Final] =
     \<lparr>receivedFinal = True, runningTasks = 0,
       tasks = [\<lparr>retry = 0, params = p\<lparr>useCache := True\<rparr>, phase = Returned\<rparr>],
       pushed = [Chunk r], run_calls = [(0, p\<lparr>useCache := True\<rparr>)], delays = []\<rparr>"
  by (simp add: run_events_def transform_initial_def DownloadTransform_write_def loop_head_def
      awaiting_def run_resolved_def push_and_return_def DownloadTransform_final_def Let_def)

text \<open>
  Claim C2 at the input where the upstream ends after the only task has completed: \<open>_final\<close>
  sets the flag and tests nothing, so \<open>receivedFinal\<close> holds and \<open>runningTasks\<close> is zero,
  and the end of the stream has not been pushed, nor will it be, whatever happens next.
\<close>

theorem sentinel_missing_when_final_comes_last:
  "receivedFinal (run_events ([Write p, RunResolved 0 r, Final] @ evs))
   \<and> runningTasks (run_events ([Write p, RunResolved 0 r, Final] @ evs)) = 0
   \<and> pushed (run_events ([Write p, RunResolved 0 r, Final] @ evs)) = [Chunk r]"
proof -
  have d: "drained (run_events [Write p, RunResolved 0 r, Final])"
    unfolding final_last_state by (simp add: drained_def)
  have "run_events ([Write p, RunResolved 0 r, Final] @ evs) = run_events [Write p, RunResolved 0 r, Final]"
    using drained_foldl [OF d, of evs] unfolding run_events_def foldl_append .
  then show ?thesis by (simp add: final_last_state)
qed

text \<open>The same for an upstream that ends without a single request.\<close>

lemma empty_stream_never_ends:
  "receivedFinal (run_events (Final # evs)) \<and> runningTasks (run_events (Final # evs)) = 0
   \<and> pushed (run_events (Final # evs)) = []"
proof -
  have e: "run_events [Final] = transform_initial\<lparr>receivedFinal := True\<rparr>"
    by (simp add: run_events_def DownloadTransform_final_def)
  have d: "drained (run_events [Final])"
    unfolding e by (simp add: drained_def transform_initial_def)
  have "run_events ([Final] @ evs) = run_events [Final]"
    using drained_foldl [OF d, of evs] unfolding run_events_def foldl_append .
  then show ?thesis by (simp add: e transform_initial_def)
qed

section \<open>Properties of the Tokyo-23-ward stage\<close>

lemma copy_hit_levels:
  "match_level (copy_hit q r i) = MACHIAZA_DETAIL" "coordinate_level (copy_hit q r i) = MACHIAZA_DETAIL"
  by (simp_all add: copy_hit_def)

lemma copy_hit_keys:
  "pref_key (copy_hit q r i) = t_pref_key i" "city_key (copy_hit q r i) = t_city_key i"
  "town_key (copy_hit q r i) = t_town_key i"
  by (simp_all add: copy_hit_def)

lemma copy_hit_skipped: "skipped (copy_hit q r i)"
  by (simp add: skipped_def copy_hit_levels)

lemma copy_hit_Q1: "Q1 (copy_hit q r i)"
  by (simp add: Q1_def copy_hit_levels)

lemma forEach_searchResult_ok:
  "list_all (\<lambda>r. info r \<noteq> None) rs \<Longrightarrow>
     forEach_searchResult q rs = Inr (map (\<lambda>r. copy_hit q r (the (info r))) rs)"
  by (induction rs) auto

lemma forEach_searchResult_error:
  "forEach_searchResult q rs = Inl e \<Longrightarrow> e = Error ''searchResult.info is empty''"
  by (induction rs arbitrary: e) (auto split: option.splits sum.splits)

lemma forEach_searchResult_empty_info:
  "r \<in> set rs \<Longrightarrow> info r = None \<Longrightarrow>
     forEach_searchResult q rs = Inl (Error ''searchResult.info is empty'')"
proof (induction rs)
  case Nil
  then show ?case by simp
next
  case (Cons a rs)
  show ?case
  proof (cases "info a")
    case None
    then show ?thesis by simp
  next
    case (Some i)
    with Cons have "forEach_searchResult q rs = Inl (Error ''searchResult.info is empty'')" by auto
    with Some show ?thesis by simp
  qed
qed

lemma forEach_searchResult_hits:
  "forEach_searchResult q rs = Inr out \<Longrightarrow> y \<in> set out \<Longrightarrow> \<exists>r i. y = copy_hit q r i"
proof (induction rs arbitrary: out)
  case Nil
  then show ?case by simp
next
  case (Cons a rs)
  from Cons.prems(1) obtain i hits where i: "info a = Some i"
    and h: "forEach_searchResult q rs = Inr hits" and out: "out = copy_hit q a i # hits"
    by (auto split: option.splits sum.splits)
  from Cons.prems(2) out have "y = copy_hit q a i \<or> y \<in> set hits" by simp
  then show ?case
  proof
    assume "y = copy_hit q a i"
    then show ?thesis by blast
  next
    assume "y \<in> set hits"
    with Cons.IH [OF h] show ?thesis .
  qed
qed

lemma forEach_searchResult_none:
  "forEach_searchResult q rs = Inr [] \<Longrightarrow> rs = []"
  by (cases rs) (auto split: option.splits sum.splits)

lemma transform_query_skipped: "skipped q \<Longrightarrow> transform_query im this q = Inr [q]"
  by (simp add: transform_query_def)

lemma transform_query_error:
  "transform_query im this q = Inl e \<Longrightarrow> e = Error ''searchResult.info is empty''"
  by (auto simp: transform_query_def Let_def split: if_splits option.splits
      dest: forEach_searchResult_error)

lemma transform_query_out:
  assumes "transform_query im this q = Inr out" and "y \<in> set out"
  shows "y = q \<or> (\<exists>r i. y = copy_hit q r i)"
  using assms
  by (auto simp: transform_query_def Let_def split: if_splits option.splits
      dest: forEach_searchResult_hits)

lemma transform_query_again:
  assumes "transform_query im this q = Inr out" and "y \<in> set out"
  shows "transform_query im this y = Inr [y]"
proof -
  from transform_query_out [OF assms] show ?thesis
  proof
    assume "\<exists>r i. y = copy_hit q r i"
    then show ?thesis by (auto simp: transform_query_skipped copy_hit_skipped)
  next
    assume yq: "y = q"
    have "out = [q]"
    proof (cases "skipped q")
      case True
      with assms(1) show ?thesis by (simp add: transform_query_def)
    next
      case False
      show ?thesis
      proof (cases "trie_find im (tokyo23TownTrie this) (normalizeCharNode im (tempAddress q))")
        case None
        with False assms(1) show ?thesis by (simp add: transform_query_def Let_def)
      next
        case (Some rs)
        show ?thesis
        proof (cases "rs = []")
          case True
          with Some False assms(1) show ?thesis by (simp add: transform_query_def Let_def)
        next
          case ne: False
          with Some False assms(1) have h: "forEach_searchResult q rs = Inr out"
            by (simp add: transform_query_def Let_def)
          from forEach_searchResult_hits [OF h assms(2)] obtain r i where "y = copy_hit q r i"
            by blast
          then have "skipped y" by (simp add: copy_hit_skipped)
          with yq False show ?thesis by simp
        qed
      qed
    qed
    with assms(1) yq show ?thesis by simp
  qed
qed

lemma forEach_query_fixed:
  "(\<And>y. y \<in> set ys \<Longrightarrow> transform_query im this y = Inr [y]) \<Longrightarrow> forEach_query im this ys = Inr ys"
  by (induction ys) simp_all

lemma forEach_query_out:
  "forEach_query im this qs = Inr ys \<Longrightarrow> y \<in> set ys \<Longrightarrow>
     \<exists>q out. q \<in> set qs \<and> transform_query im this q = Inr out \<and> y \<in> set out"
proof (induction qs arbitrary: ys)
  case Nil
  then show ?case by simp
next
  case (Cons a qs)
  then show ?case
    by (fastforce split: sum.splits)
qed

lemma forEach_query_error:
  "forEach_query im this qs = Inl e \<Longrightarrow> e = Error ''searchResult.info is empty''"
  by (induction qs arbitrary: e) (auto split: sum.splits dest: transform_query_error)

lemma forEach_query_fails:
  "q \<in> set qs \<Longrightarrow> transform_query im this q = Inl e \<Longrightarrow> \<exists>e'. forEach_query im this qs = Inl e'"
  by (induction qs) (auto split: sum.splits)

lemma forEach_query_nonempty:
  "forEach_query im this qs = Inr ys \<Longrightarrow> (ys = []) = (qs = [])"
proof (induction qs arbitrary: ys)
  case Nil
  then show ?case by simp
next
  case (Cons a qs)
  from Cons.prems obtain out outs where o: "transform_query im this a = Inr out"
    and ys: "ys = out @ outs"
    by (auto split: sum.splits)
  have "out \<noteq> []"
  proof
    assume "out = []"
    with o show False
      by (auto simp: transform_query_def Let_def split: if_splits option.splits
          dest: forEach_searchResult_none)
  qed
  with ys show ?case by simp
qed

lemma forEach_query_idem:
  assumes "forEach_query im this qs = Inr ys"
  shows "forEach_query im this ys = Inr ys"
proof (rule forEach_query_fixed)
  fix y assume "y \<in> set ys"
  from forEach_query_out [OF assms this] obtain q out where
    "transform_query im this q = Inr out" "y \<in> set out" by blast
  then show "transform_query im this y = Inr [y]" by (rule transform_query_again)
qed

lemma transform_results_Inr:
  "transform_results im this qs = Inr ys \<longleftrightarrow>
     forEach_query im this qs = Inr ys \<and> \<not> (logger this \<and> ys = [])"
  by (auto simp: transform_results_def split: sum.splits)

lemma transform_results_idem:
  assumes "transform_results im this qs = Inr ys"
  shows "transform_results im this ys = Inr ys"
proof -
  from assms have f: "forEach_query im this qs = Inr ys" and l: "\<not> (logger this \<and> ys = [])"
    by (simp_all add: transform_results_Inr)
  from forEach_query_idem [OF f] l show ?thesis
    by (simp add: transform_results_Inr)
qed

lemma transform_results_Q1:
  assumes "transform_results im this qs = Inr ys" and "list_all Q1 qs"
  shows "list_all Q1 ys"
proof -
  from assms(1) have f: "forEach_query im this qs = Inr ys" by (simp add: transform_results_Inr)
  have "Q1 y" if "y \<in> set ys" for y
  proof -
    from forEach_query_out [OF f that] obtain q out where
      q: "q \<in> set qs" and o: "transform_query im this q = Inr out" and y: "y \<in> set out" by blast
    from transform_query_out [OF o y] show ?thesis
    proof
      assume "y = q"
      with q assms(2) show ?thesis by (simp add: list_all_iff)
    next
      assume "\<exists>r i. y = copy_hit q r i"
      then show ?thesis by (auto simp: copy_hit_Q1)
    qed
  qed
  then show ?thesis by (simp add: list_all_iff)
qed

lemma transform_results_empty_info:
  assumes "q \<in> set qs" and "r \<in> set (search_results im this q)" and "info r = None"
  shows "transform_results im this qs = Inl (Error ''searchResult.info is empty'')"
proof -
  have ns: "\<not> skipped q" using assms(2) by (auto simp: search_results_def split: if_splits)
  have "\<exists>rs. trie_find im (tokyo23TownTrie this) (normalizeCharNode im (tempAddress q)) = Some rs
      \<and> r \<in> set rs"
    using assms(2) ns
    by (cases "trie_find im (tokyo23TownTrie this) (normalizeCharNode im (tempAddress q))")
      (simp_all add: search_results_def)
  then obtain rs where rs: "trie_find im (tokyo23TownTrie this) (normalizeCharNode im (tempAddress q)) = Some rs"
    and r: "r \<in> set rs" by blast
  from r have "rs \<noteq> []" by auto
  with ns rs have "transform_query im this q = forEach_searchResult q rs"
    by (simp add: transform_query_def Let_def)
  also have "\<dots> = Inl (Error ''searchResult.info is empty'')"
    using r assms(3) by (rule forEach_searchResult_empty_info)
  finally obtain e where "forEach_query im this qs = Inl e"
    using forEach_query_fails [OF assms(1)] by blast
  moreover from this have "e = Error ''searchResult.info is empty''" by (rule forEach_query_error)
  ultimately show ?thesis by (simp add: transform_results_def)
qed

text \<open>The wait: it ends for every object the constructor has made, and for no other.\<close>

lemma run_immediate_scheduled:
  "immediate this = Some towns \<Longrightarrow> stage_initialized (run_immediate im this)"
  by (simp add: run_immediate_def)

lemma run_immediate_idle: "immediate this = None \<Longrightarrow> run_immediate im this = this"
  by (simp add: run_immediate_def)

lemma after_wait_initialized: "constructed this \<Longrightarrow> stage_initialized (after_wait im this)"
  by (auto simp: constructed_def after_wait_def run_immediate_scheduled)

lemma after_wait_ready: "stage_initialized this \<Longrightarrow> after_wait im this = this"
  by (simp add: after_wait_def)

lemma await_initialized_ready: "stage_initialized this \<Longrightarrow> await_initialized im this = Some this"
  by (subst await_initialized.simps) simp

lemma await_initialized_constructed:
  assumes "constructed this"
  shows "await_initialized im this = Some (after_wait im this)"
proof (cases "stage_initialized this")
  case True
  then show ?thesis by (simp add: await_initialized_ready after_wait_def)
next
  case False
  with assms obtain towns where t: "immediate this = Some towns"
    by (auto simp: constructed_def)
  have "await_initialized im this = await_initialized im (run_immediate im this)"
    using False by (subst await_initialized.simps) simp
  also have "\<dots> = Some (run_immediate im this)"
    by (rule await_initialized_ready) (rule run_immediate_scheduled [OF t])
  finally show ?thesis using False by (simp add: after_wait_def)
qed

lemma await_initialized_returns:
  assumes "await_initialized im this = Some this'"
  shows "constructed this"
proof (rule await_initialized.raw_induct [where P = "\<lambda>_ t _. constructed t", OF _ assms])
  fix f :: "'a externals \<Rightarrow> Tokyo23TownTranform \<Rightarrow> Tokyo23TownTranform option"
    and ex t y
  assume ih: "\<And>ex t y. f ex t = Some y \<Longrightarrow> constructed t"
    and eq: "(if stage_initialized t then Some t else f ex (run_immediate ex t)) = Some y"
  show "constructed t"
  proof (cases "stage_initialized t")
    case True
    then show ?thesis by (simp add: constructed_def)
  next
    case False
    with eq have "f ex (run_immediate ex t) = Some y" by simp
    then have c: "constructed (run_immediate ex t)" by (rule ih)
    show ?thesis
    proof (cases "immediate t")
      case None
      with c show ?thesis by (simp add: run_immediate_idle)
    next
      case (Some towns)
      then show ?thesis by (simp add: constructed_def)
    qed
  qed
qed

lemma await_initialized_never:
  "\<not> constructed this \<Longrightarrow> await_initialized im this = None"
  using await_initialized_returns [of im this] by (cases "await_initialized im this") auto

lemma transform_Some:
  "Tokyo23TownTranform_transform im this qs = Some (res, this') \<longleftrightarrow>
     constructed this \<and> this' = after_wait im this \<and> res = transform_results im this' qs"
proof (cases "constructed this")
  case True
  then show ?thesis
    by (auto simp: Tokyo23TownTranform_transform_def await_initialized_constructed)
next
  case False
  then show ?thesis
    by (simp add: Tokyo23TownTranform_transform_def await_initialized_never)
qed

lemma transform_ready:
  "stage_initialized this \<Longrightarrow>
     Tokyo23TownTranform_transform im this qs = Some (transform_results im this qs, this)"
  by (simp add: Tokyo23TownTranform_transform_def await_initialized_ready)

text \<open>A batch that is intact: what the stage emits for it.\<close>

lemma transform_query_intact:
  assumes "list_all (\<lambda>r. info r \<noteq> None) (search_results im this q)"
  shows "transform_query im this q = Inr (emitted_for im this q)"
proof (cases "skipped q")
  case True
  then show ?thesis by (simp add: transform_query_def emitted_for_def search_results_def)
next
  case False
  show ?thesis
  proof (cases "trie_find im (tokyo23TownTrie this) (normalizeCharNode im (tempAddress q))")
    case None
    with False show ?thesis
      by (simp add: transform_query_def emitted_for_def search_results_def)
  next
    case (Some rs)
    with False have sr: "search_results im this q = rs" by (simp add: search_results_def)
    show ?thesis
    proof (cases "rs = []")
      case True
      with False Some sr show ?thesis by (simp add: transform_query_def emitted_for_def)
    next
      case ne: False
      from assms sr have "forEach_searchResult q rs = Inr (map (\<lambda>r. copy_hit q r (the (info r))) rs)"
        by (simp add: forEach_searchResult_ok)
      with False Some sr ne show ?thesis by (simp add: transform_query_def emitted_for_def)
    qed
  qed
qed

lemma forEach_query_intact:
  "intact im this qs \<Longrightarrow> forEach_query im this qs = Inr (concat (map (emitted_for im this) qs))"
  by (induction qs) (simp_all add: intact_def transform_query_intact)

lemma emitted_for_nonempty: "emitted_for im this q \<noteq> []"
  by (simp add: emitted_for_def)

lemma transform_intact:
  assumes "constructed this" and "intact im (after_wait im this) qs" and "qs \<noteq> []"
  shows "Tokyo23TownTranform_transform im this qs =
    Some (Inr (concat (map (emitted_for im (after_wait im this)) qs)), after_wait im this)"
proof -
  obtain q qs' where q: "qs = q # qs'" using assms(3) by (cases qs) auto
  have "concat (map (emitted_for im (after_wait im this)) qs) \<noteq> []"
    by (simp add: q emitted_for_nonempty)
  then have "transform_results im (after_wait im this) qs =
      Inr (concat (map (emitted_for im (after_wait im this)) qs))"
    by (simp add: transform_results_def forEach_query_intact [OF assms(2)])
  then show ?thesis
    using assms(1) by (simp add: Tokyo23TownTranform_transform_def await_initialized_constructed)
qed

lemma emitted_for_resolved:
  "tempAddress q = None \<or> num CITY \<le> num (match_level q) \<Longrightarrow> emitted_for im this q = [q]"
  by (simp add: emitted_for_def search_results_def skipped_def)

lemma emitted_for_hit:
  assumes "tempAddress q \<noteq> None" and "num (match_level q) < num CITY"
    and "trie_find im (tokyo23TownTrie this) (normalizeCharNode im (tempAddress q)) = Some rs"
    and "rs \<noteq> []"
  shows "emitted_for im this q = map (\<lambda>r. copy_hit q r (the (info r))) rs"
proof -
  have "\<not> skipped q" using assms(1,2) by (simp add: skipped_def)
  then have "search_results im this q = rs" using assms(3) by (simp add: search_results_def)
  then show ?thesis using assms(4) by (simp add: emitted_for_def)
qed

lemma transform_again:
  assumes "Tokyo23TownTranform_transform im this qs = Some (Inr ys, this')"
  shows "Tokyo23TownTranform_transform im this' ys = Some (Inr ys, this')"
proof -
  from assms have c: "constructed this" and t: "this' = after_wait im this"
    and r: "transform_results im this' qs = Inr ys"
    by (simp_all add: transform_Some)
  from c t have "stage_initialized this'" by (simp add: after_wait_initialized)
  then have "Tokyo23TownTranform_transform im this' ys = Some (transform_results im this' ys, this')"
    by (rule transform_ready)
  with transform_results_idem [OF r] show ?thesis by simp
qed

text \<open>
  Claim C5, as the code has it. In a batch that is intact, a query whose \<open>tempAddress\<close> is
  empty (undefined) or whose \<open>match_level\<close> is CITY or above is emitted as it is, at its
  place between what the stage emits for the queries before it and after it; and whenever
  the stage emits \<open>ys\<close> for a batch, running it again on \<open>ys\<close> emits \<open>ys\<close> again, which is the
  case for every intact batch that is not empty.
\<close>

theorem resolved_records_pass_unchanged:
  "(constructed this \<and> intact im (after_wait im this) (pre @ q # post)
      \<and> (tempAddress q = None \<or> num CITY \<le> num (match_level q)) \<longrightarrow>
        Tokyo23TownTranform_transform im this (pre @ q # post) =
          Some (Inr (concat (map (emitted_for im (after_wait im this)) pre) @ [q]
                     @ concat (map (emitted_for im (after_wait im this)) post)),
                after_wait im this))
   \<and> (constructed this \<and> intact im (after_wait im this) qs \<and> qs \<noteq> [] \<longrightarrow>
        Tokyo23TownTranform_transform im this qs =
          Some (Inr (concat (map (emitted_for im (after_wait im this)) qs)), after_wait im this)
        \<and> Tokyo23TownTranform_transform im (after_wait im this)
            (concat (map (emitted_for im (after_wait im this)) qs)) =
          Some (Inr (concat (map (emitted_for im (after_wait im this)) qs)), after_wait im this))
   \<and> (Tokyo23TownTranform_transform im this qs = Some (Inr ys, this') \<longrightarrow>
        Tokyo23TownTranform_transform im this' ys = Some (Inr ys, this'))"
proof (intro conjI impI)
  assume a: "constructed this \<and> intact im (after_wait im this) (pre @ q # post)
      \<and> (tempAddress q = None \<or> num CITY \<le> num (match_level q))"
  then have "emitted_for im (after_wait im this) q = [q]" by (simp add: emitted_for_resolved)
  moreover from a have "Tokyo23TownTranform_transform im this (pre @ q # post) =
      Some (Inr (concat (map (emitted_for im (after_wait im this)) (pre @ q # post))), after_wait im this)"
    by (intro transform_intact) simp_all
  ultimately show "Tokyo23TownTranform_transform im this (pre @ q # post) =
          Some (Inr (concat (map (emitted_for im (after_wait im this)) pre) @ [q]
                     @ concat (map (emitted_for im (after_wait im this)) post)),
                after_wait im this)"
    by simp
next
  assume a: "constructed this \<and> intact im (after_wait im this) qs \<and> qs \<noteq> []"
  then show t: "Tokyo23TownTranform_transform im this qs =
      Some (Inr (concat (map (emitted_for im (after_wait im this)) qs)), after_wait im this)"
    by (intro transform_intact) simp_all
  then show "Tokyo23TownTranform_transform im (after_wait im this)
            (concat (map (emitted_for im (after_wait im this)) qs)) =
          Some (Inr (concat (map (emitted_for im (after_wait im this)) qs)), after_wait im this)"
    by (rule transform_again)
next
  assume "Tokyo23TownTranform_transform im this qs = Some (Inr ys, this')"
  then show "Tokyo23TownTranform_transform im this' ys = Some (Inr ys, this')"
    by (rule transform_again)
qed

text \<open>
  Claim C6. If every query of a batch satisfies \<open>match_level \<ge> coordinate_level\<close>, so does
  every query the stage emits for it.
\<close>

theorem stage_preserves_Q1:
  assumes "Tokyo23TownTranform_transform im this qs = Some (Inr ys, this')" and "list_all Q1 qs"
  shows "list_all Q1 ys"
proof -
  from assms(1) have "transform_results im this' qs = Inr ys" by (simp add: transform_Some)
  then show ?thesis using assms(2) by (rule transform_results_Q1)
qed

text \<open>
  Claim C9. If one of the search results that reach the stage for a query of the batch has
  no \<open>info\<close>, \<open>_transform\<close> throws \<open>Error('searchResult.info is empty')\<close> and emits nothing.
\<close>

theorem empty_info_is_fatal:
  assumes "constructed this" and "q \<in> set qs"
    and "r \<in> set (search_results im (after_wait im this) q)" and "info r = None"
  shows "Tokyo23TownTranform_transform im this qs =
    Some (Inl (Error ''searchResult.info is empty''), after_wait im this)"
  using transform_results_empty_info [OF assms(2,3,4)] assms(1)
  by (simp add: Tokyo23TownTranform_transform_def await_initialized_constructed)

text \<open>
  Claim C3, as the code has it. In a batch that is intact, for a query with a \<open>tempAddress\<close>
  and a \<open>match_level\<close> below CITY for which the search returns results, the stage emits one
  copy of the query per result, in their order, at the query's place between what it emits
  for the queries before and after; each copy has \<open>pref_key\<close>, \<open>city_key\<close> and \<open>town_key\<close>
  of the result's row and \<open>match_level\<close> MACHIAZA_DETAIL, whether or not the row has a
  \<open>chome\<close> or a \<open>koaza\<close>.
\<close>

theorem hit_sets_town_keys_and_detail_level:
  assumes "constructed this"
    and "intact im (after_wait im this) (pre @ q # post)"
    and "tempAddress q \<noteq> None" and "num (match_level q) < num CITY"
    and "trie_find im (tokyo23TownTrie (after_wait im this)) (normalizeCharNode im (tempAddress q))
          = Some rs"
    and "rs \<noteq> []"
  shows "Tokyo23TownTranform_transform im this (pre @ q # post) =
      Some (Inr (concat (map (emitted_for im (after_wait im this)) pre)
                 @ map (\<lambda>r. copy_hit q r (the (info r))) rs
                 @ concat (map (emitted_for im (after_wait im this)) post)),
            after_wait im this)
    \<and> list_all (\<lambda>r. pref_key (copy_hit q r (the (info r))) = t_pref_key (the (info r))
                   \<and> city_key (copy_hit q r (the (info r))) = t_city_key (the (info r))
                   \<and> town_key (copy_hit q r (the (info r))) = t_town_key (the (info r))
                   \<and> match_level (copy_hit q r (the (info r))) = MACHIAZA_DETAIL) rs"
proof
  have "Tokyo23TownTranform_transform im this (pre @ q # post) =
      Some (Inr (concat (map (emitted_for im (after_wait im this)) (pre @ q # post))), after_wait im this)"
    using assms(1,2) by (intro transform_intact) simp_all
  moreover have "emitted_for im (after_wait im this) q = map (\<lambda>r. copy_hit q r (the (info r))) rs"
    using assms(3-6) by (rule emitted_for_hit)
  ultimately show "Tokyo23TownTranform_transform im this (pre @ q # post) =
      Some (Inr (concat (map (emitted_for im (after_wait im this)) pre)
                 @ map (\<lambda>r. copy_hit q r (the (info r))) rs
                 @ concat (map (emitted_for im (after_wait im this)) post)),
            after_wait im this)"
    by simp
  show "list_all (\<lambda>r. pref_key (copy_hit q r (the (info r))) = t_pref_key (the (info r))
                   \<and> city_key (copy_hit q r (the (info r))) = t_city_key (the (info r))
                   \<and> town_key (copy_hit q r (the (info r))) = t_town_key (the (info r))
                   \<and> match_level (copy_hit q r (the (info r))) = MACHIAZA_DETAIL) rs"
    by (simp add: list_all_iff copy_hit_keys copy_hit_levels)
qed

text \<open>
  Claim C4. \<open>normalizeStr\<close> applies to-hiragana, kan2num, jisKanji and the suffix strip in
  this order; \<open>normalizeCharNode\<close> applies the suffix strip first, then to-hiragana, kan2num
  and jisKanji, to every chain.
\<close>

theorem normalizer_order:
  "normalizeStr im x = suffixStrip im (jisKanji im (kan2num im (toHiragana im x)))
   \<and> normalizeCharNode im (Some c) =
       jisKanjiForCharNode im (kan2numForCharNode im (toHiraganaForCharNode im (suffixStripForCharNode im c)))"
  by (simp add: normalizeStr_def normalizeCharNode_def)

lemma tracing_order:
  "normalizeStr tracing_externals ''x'' = ''xHKJS''
   \<and> normalizeCharNode tracing_externals (Some ''x'') = Some ''xSHKJ''"
  by (simp add: normalizeStr_def normalizeCharNode_def tracing_externals_def)

text \<open>The stage on the sample values.\<close>

lemma sample_stage_eq:
  "sample_stage =
     \<lparr>tokyo23TownTrie = [(''hayabusacho'', sample_town)], logger = True,
      stage_initialized = True, immediate = None\<rparr>"
  by (simp add: sample_stage_def Tokyo23TownTranform_new_def run_immediate_def normalizeStr_def
      sample_externals_def sample_town_def)

lemma sample_stage_ready: "stage_initialized sample_stage"
  by (simp add: sample_stage_eq)

lemma fresh_stage:
  "constructed (Tokyo23TownTranform_new [sample_town] True)
   \<and> after_wait sample_externals (Tokyo23TownTranform_new [sample_town] True) = sample_stage"
  by (simp add: constructed_def after_wait_def sample_stage_def Tokyo23TownTranform_new_def)

lemma sample_not_skipped: "\<not> skipped sample_query"
  by (simp add: skipped_def sample_query_def)

lemma sample_find:
  "trie_find sample_externals (tokyo23TownTrie sample_stage)
     (normalizeCharNode sample_externals (tempAddress sample_query)) = Some [sample_hit]"
  unfolding sample_stage_eq
  by (simp add: sample_externals_def normalizeCharNode_def prefix_find_def sample_query_def
      sample_hit_def)

lemma sample_results:
  "transform_results sample_externals sample_stage [sample_query] =
     Inr [copy_hit sample_query sample_hit sample_town]"
  using sample_not_skipped sample_find
  by (simp add: transform_results_def transform_query_def sample_hit_def)

lemma sample_transform:
  "Tokyo23TownTranform_transform sample_externals (Tokyo23TownTranform_new [sample_town] True) [sample_query] =
     Some (Inr [copy_hit sample_query sample_hit sample_town], sample_stage)"
  using fresh_stage sample_results
  by (simp add: Tokyo23TownTranform_transform_def await_initialized_constructed)

lemma resolved_skipped: "skipped resolved_query"
  by (simp add: skipped_def resolved_query_def)

lemma sample_Q1: "Q1 sample_query"
  by (simp add: Q1_def sample_query_def)

lemma sample_search:
  "search_results sample_externals sample_stage resolved_query = []
   \<and> search_results sample_externals sample_stage sample_query = [sample_hit]"
  using resolved_skipped sample_not_skipped sample_find
  by (simp add: search_results_def)

lemma sample_batch_intact: "intact sample_externals sample_stage [resolved_query, sample_query]"
  by (simp add: intact_def sample_search sample_hit_def)

lemma sample_emitted_for:
  "emitted_for sample_externals sample_stage resolved_query = [resolved_query]
   \<and> emitted_for sample_externals sample_stage sample_query =
       [copy_hit sample_query sample_hit sample_town]"
  by (simp add: emitted_for_def sample_search sample_hit_def)

lemma sample_levels:
  "tempAddress sample_query \<noteq> None \<and> num (match_level sample_query) < num CITY
   \<and> num CITY \<le> num (match_level resolved_query)"
  by (simp add: sample_query_def resolved_query_def)

theorem hit_sets_town_keys_and_detail_level_witness:
  "constructed (Tokyo23TownTranform_new [sample_town] True)
   \<and> intact sample_externals sample_stage [resolved_query, sample_query]
   \<and> tempAddress sample_query \<noteq> None
   \<and> num (match_level sample_query) < num CITY
   \<and> trie_find sample_externals (tokyo23TownTrie sample_stage)
        (normalizeCharNode sample_externals (tempAddress sample_query)) = Some [sample_hit]
   \<and> [sample_hit] \<noteq> []
   \<and> Tokyo23TownTranform_transform sample_externals (Tokyo23TownTranform_new [sample_town] True)
        [resolved_query, sample_query] =
        Some (Inr [resolved_query, copy_hit sample_query sample_hit sample_town], sample_stage)
   \<and> pref_key (copy_hit sample_query sample_hit sample_town) = Num 13
   \<and> city_key (copy_hit sample_query sample_hit sample_town) = Num 13101
   \<and> town_key (copy_hit sample_query sample_hit sample_town) = Num 131010027
   \<and> match_level (copy_hit sample_query sample_hit sample_town) = MACHIAZA_DETAIL"
proof -
  have c: "constructed (Tokyo23TownTranform_new [sample_town] True)"
    and w: "after_wait sample_externals (Tokyo23TownTranform_new [sample_town] True) = sample_stage"
    using fresh_stage by simp_all
  have n: "[sample_hit] \<noteq> []" by simp
  have i: "the (info sample_hit) = sample_town" by (simp add: sample_hit_def)
  have k: "t_pref_key sample_town = Num 13" "t_city_key sample_town = Num 13101"
    "t_town_key sample_town = Num 131010027"
    by (simp_all add: sample_town_def)
  have l: "tempAddress sample_query \<noteq> None" "num (match_level sample_query) < num CITY"
    using sample_levels by simp_all
  have b: "intact sample_externals
      (after_wait sample_externals (Tokyo23TownTranform_new [sample_town] True))
      ([resolved_query] @ sample_query # [])"
    using sample_batch_intact by (simp add: w)
  have f: "trie_find sample_externals
      (tokyo23TownTrie (after_wait sample_externals (Tokyo23TownTranform_new [sample_town] True)))
      (normalizeCharNode sample_externals (tempAddress sample_query)) = Some [sample_hit]"
    using sample_find by (simp add: w)
  from hit_sets_town_keys_and_detail_level [OF c b l f n]
  show ?thesis
    using c sample_batch_intact l sample_find sample_emitted_for by (simp add: w i k)
qed

text \<open>
  Claim C3 as stated fails for a row without \<open>chome\<close> and \<open>koaza\<close>: the stage sets
  MACHIAZA_DETAIL where the claim asks for MACHIAZA.
\<close>

theorem hit_without_chome_gets_detail_level:
  "Tokyo23TownTranform_transform sample_externals sample_stage [sample_query] =
     Some (Inr [copy_hit sample_query sample_hit sample_town], sample_stage)
   \<and> match_level (copy_hit sample_query sample_hit sample_town) = MACHIAZA_DETAIL
   \<and> t_chome sample_town = Undefined
   \<and> t_koaza sample_town = Undefined
   \<and> claimed_match_level sample_town = MACHIAZA
   \<and> match_level (copy_hit sample_query sample_hit sample_town) \<noteq> claimed_match_level sample_town"
proof -
  have t: "Tokyo23TownTranform_transform sample_externals sample_stage [sample_query] =
     Some (Inr [copy_hit sample_query sample_hit sample_town], sample_stage)"
    using sample_results by (simp add: transform_ready [OF sample_stage_ready])
  have c: "t_chome sample_town = Undefined" "t_koaza sample_town = Undefined"
    by (simp_all add: sample_town_def)
  then have m: "claimed_match_level sample_town = MACHIAZA"
    by (simp add: claimed_match_level_def)
  show ?thesis using t c m by (simp add: copy_hit_levels)
qed

theorem resolved_records_pass_unchanged_witness:
  "constructed (Tokyo23TownTranform_new [sample_town] True)
   \<and> intact sample_externals sample_stage [resolved_query, sample_query]
   \<and> num CITY \<le> num (match_level resolved_query)
   \<and> Tokyo23TownTranform_transform sample_externals (Tokyo23TownTranform_new [sample_town] True)
        [resolved_query, sample_query] =
        Some (Inr [resolved_query, copy_hit sample_query sample_hit sample_town], sample_stage)
   \<and> Tokyo23TownTranform_transform sample_externals sample_stage
        [resolved_query, copy_hit sample_query sample_hit sample_town] =
        Some (Inr [resolved_query, copy_hit sample_query sample_hit sample_town], sample_stage)"
proof -
  have c: "constructed (Tokyo23TownTranform_new [sample_town] True)"
    and w: "after_wait sample_externals (Tokyo23TownTranform_new [sample_town] True) = sample_stage"
    using fresh_stage by simp_all
  have l: "num CITY \<le> num (match_level resolved_query)" using sample_levels by simp
  from resolved_records_pass_unchanged
    [where this = "Tokyo23TownTranform_new [sample_town] True" and im = sample_externals
      and pre = "[]" and q = resolved_query and post = "[sample_query]"
      and qs = "[resolved_query, sample_query]"
      and ys = "[resolved_query, copy_hit sample_query sample_hit sample_town]"
      and this' = sample_stage]
  show ?thesis
    using c l sample_batch_intact sample_emitted_for by (simp add: w)
qed

text \<open>
  Claim C5 as stated fails in a batch that is not intact: with a finder that returns a
  result without \<open>info\<close> for the second query, the stage throws and the first query, whose
  \<open>match_level\<close> is CITY, is not emitted at all.
\<close>

theorem resolved_record_lost_in_corrupt_batch:
  "num CITY \<le> num (match_level resolved_query)
   \<and> constructed sample_stage
   \<and> Tokyo23TownTranform_transform corrupt_externals sample_stage [resolved_query, sample_query] =
       Some (Inl (Error ''searchResult.info is empty''), sample_stage)
   \<and> Tokyo23TownTranform_transform corrupt_externals sample_stage [resolved_query, sample_query] \<noteq>
       Some (Inr [resolved_query, sample_query], sample_stage)"
proof -
  have l: "num CITY \<le> num (match_level resolved_query)" using sample_levels by simp
  have k: "constructed sample_stage" using sample_stage_ready by (simp add: constructed_def)
  have a: "sample_query \<in> set [resolved_query, sample_query]" by simp
  have b: "\<lparr>info = None, depth = 0, unmatched = Some ''hayabusacho 4-2''\<rparr>
       \<in> set (search_results corrupt_externals sample_stage sample_query)"
    using sample_not_skipped
    by (simp add: search_results_def corrupt_externals_def sample_externals_def
        normalizeCharNode_def sample_query_def)
  have c: "info \<lparr>info = None, depth = 0, unmatched = Some ''hayabusacho 4-2''\<rparr> = None" by simp
  have "transform_results corrupt_externals sample_stage [resolved_query, sample_query] =
      Inl (Error ''searchResult.info is empty'')"
    by (rule transform_results_empty_info [OF a b c])
  then have "Tokyo23TownTranform_transform corrupt_externals sample_stage [resolved_query, sample_query] =
       Some (Inl (Error ''searchResult.info is empty''), sample_stage)"
    by (simp add: transform_ready [OF sample_stage_ready])
  then show ?thesis using l k by simp
qed

theorem stage_preserves_Q1_witness:
  "Tokyo23TownTranform_transform sample_externals (Tokyo23TownTranform_new [sample_town] True)
     [sample_query] = Some (Inr [copy_hit sample_query sample_hit sample_town], sample_stage)
   \<and> list_all Q1 [sample_query]
   \<and> list_all Q1 [copy_hit sample_query sample_hit sample_town]"
proof -
  have a: "list_all Q1 [sample_query]" using sample_Q1 by simp
  from stage_preserves_Q1 [OF sample_transform a] show ?thesis
    using sample_transform a by simp
qed

theorem empty_info_is_fatal_witness:
  "constructed sample_stage
   \<and> sample_query \<in> set [resolved_query, sample_query]
   \<and> \<lparr>info = None, depth = 0, unmatched = Some ''hayabusacho 4-2''\<rparr>
       \<in> set (search_results corrupt_externals (after_wait corrupt_externals sample_stage) sample_query)
   \<and> info \<lparr>info = None, depth = 0, unmatched = Some ''hayabusacho 4-2''\<rparr> = None
   \<and> Tokyo23TownTranform_transform corrupt_externals sample_stage [resolved_query, sample_query] =
       Some (Inl (Error ''searchResult.info is empty''), sample_stage)"
proof -
  have w: "after_wait corrupt_externals sample_stage = sample_stage"
    by (rule after_wait_ready [OF sample_stage_ready])
  have k: "constructed sample_stage" using sample_stage_ready by (simp add: constructed_def)
  have a: "sample_query \<in> set [resolved_query, sample_query]" by simp
  have b: "\<lparr>info = None, depth = 0, unmatched = Some ''hayabusacho 4-2''\<rparr>
       \<in> set (search_results corrupt_externals (after_wait corrupt_externals sample_stage) sample_query)"
    using sample_not_skipped
    by (simp add: w search_results_def corrupt_externals_def sample_externals_def
        normalizeCharNode_def sample_query_def)
  have c: "info \<lparr>info = None, depth = 0, unmatched = Some ''hayabusacho 4-2''\<rparr> = None" by simp
  from empty_info_is_fatal [OF k a b c] show ?thesis using k a b w by simp
qed

section \<open>Properties of the JSON formatter\<close>

lemma transform_keeps_debug:
  "options_debug (snd (JsonTransform_transform ex r this)) = options_debug this"
  "0 < lineNum (snd (JsonTransform_transform ex r this))"
  by (simp_all add: JsonTransform_transform_def Let_def)

lemma transform_chunk:
  "fst (JsonTransform_transform ex r this) = buffer this"
  "buffer (snd (JsonTransform_transform ex r this)) =
     (if 0 < lineNum this then '','' else ''['')
     @ JSON_stringify ex (output_object ex (options_debug this) r)"
  by (simp_all add: JsonTransform_transform_def Let_def)

lemma readable_push_concat:
  "concat (delivered (readable_push f c rd) @ pending (readable_push f c rd)) =
     concat (delivered rd @ pending rd) @ c"
  by (simp add: readable_push_def)

text \<open>
  Pushed chunks stay in order, whatever the destination does: after the writes, what was
  delivered, what waits and the buffer of the object make up the text so far.
\<close>

lemma write_all_later:
  "0 < lineNum this \<Longrightarrow>
     concat (delivered (snd (write_all ex ws this rd)) @ pending (snd (write_all ex ws this rd)))
       @ buffer (fst (write_all ex ws this rd)) =
     concat (delivered rd @ pending rd) @ buffer this
       @ concat (map (\<lambda>w. '','' @ JSON_stringify ex (output_object ex (options_debug this) (fst w))) ws)"
proof (induction ws arbitrary: this rd)
  case Nil
  then show ?case by simp
next
  case (Cons w ws)
  obtain r f where w: "w = (r, f)" by (cases w)
  let ?t = "snd (JsonTransform_transform ex r this)"
  let ?rd = "readable_push f (buffer this) rd"
  have "concat (delivered (snd (write_all ex ws ?t ?rd)) @ pending (snd (write_all ex ws ?t ?rd)))
       @ buffer (fst (write_all ex ws ?t ?rd)) =
     concat (delivered ?rd @ pending ?rd) @ buffer ?t
       @ concat (map (\<lambda>w. '','' @ JSON_stringify ex (output_object ex (options_debug ?t) (fst w))) ws)"
    by (rule Cons.IH) (simp add: transform_keeps_debug)
  then show ?case
    using Cons.prems
    by (simp add: w split_beta transform_chunk transform_keeps_debug readable_push_concat
        del: append_assoc concat_append)
qed

lemma comma_separated_Cons:
  "comma_separated (x # xs) = x @ concat (map (\<lambda>y. '','' @ y) xs)"
  by (induction xs arbitrary: x) simp_all

lemma write_all_pending:
  "ws \<noteq> [] \<Longrightarrow> snd (last ws) \<Longrightarrow> pending (snd (write_all ex ws this rd)) = []"
proof (induction ws arbitrary: this rd)
  case Nil
  then show ?case by simp
next
  case (Cons w ws)
  obtain r f where w: "w = (r, f)" by (cases w)
  show ?case
  proof (cases "ws = []")
    case True
    with Cons.prems w show ?thesis by (simp add: split_beta readable_push_def)
  next
    case False
    with Cons.prems have "snd (last ws)" by simp
    from Cons.IH [OF False this] show ?thesis by (simp add: w split_beta)
  qed
qed

lemma emitted_concat:
  "concat (emitted ex debug ((r, f) # ws)) =
     concat (delivered (snd (write_all ex ((r, f) # ws) (JsonTransform_new debug)
                \<lparr>delivered = [], pending = []\<rparr>)))
     @ buffer (fst (write_all ex ((r, f) # ws) (JsonTransform_new debug) \<lparr>delivered = [], pending = []\<rparr>))
     @ '']'' @ BREAK_AT_EOF ex
     @ concat (pending (snd (write_all ex ((r, f) # ws) (JsonTransform_new debug)
                \<lparr>delivered = [], pending = []\<rparr>)))"
  by (simp add: emitted_def JsonTransform_final_def emit_data_def split_beta Let_def)

text \<open>
  For a sequence that is not empty the destination receives the array of claim C8 when it
  takes data at the last write, so that nothing waits when \<open>_final\<close> runs.
\<close>

lemma nonempty_stream_is_array:
  assumes "snd (last ((r, f) # ws))"
  shows "concat (emitted ex debug ((r, f) # ws)) = json_array_document ex debug (r # map fst ws)"
proof -
  define t where "t = snd (JsonTransform_transform ex r (JsonTransform_new debug))"
  define rd where "rd = readable_push f [] \<lparr>delivered = [], pending = []\<rparr>"
  define W where
    "W = write_all ex ((r, f) # ws) (JsonTransform_new debug) \<lparr>delivered = [], pending = []\<rparr>"
  have w: "W = write_all ex ws t rd"
    by (simp add: W_def t_def rd_def split_beta transform_chunk JsonTransform_new_def)
  have d: "options_debug t = debug" and l: "0 < lineNum t"
    by (simp_all add: t_def transform_keeps_debug JsonTransform_new_def)
  have b: "buffer t = ''['' @ JSON_stringify ex (output_object ex debug r)"
    by (simp add: t_def transform_chunk JsonTransform_new_def)
  have e: "concat (delivered rd @ pending rd) = []"
    by (simp add: rd_def readable_push_def)
  have p: "pending (snd W) = []"
    unfolding W_def by (rule write_all_pending [OF _ assms]) simp
  have later: "concat (delivered (snd W) @ pending (snd W)) @ buffer (fst W) =
     concat (delivered rd @ pending rd) @ buffer t
       @ concat (map (\<lambda>w. '','' @ JSON_stringify ex (output_object ex (options_debug t) (fst w))) ws)"
    unfolding w by (rule write_all_later [OF l])
  have main: "concat (delivered (snd W)) @ buffer (fst W) =
      ''['' @ JSON_stringify ex (output_object ex debug r)
        @ concat (map (\<lambda>w. '','' @ JSON_stringify ex (output_object ex debug (fst w))) ws)"
    using later unfolding e p d b by simp
  have em: "concat (emitted ex debug ((r, f) # ws)) =
      concat (delivered (snd W)) @ buffer (fst W) @ '']'' @ BREAK_AT_EOF ex @ concat (pending (snd W))"
    unfolding W_def by (rule emitted_concat)
  have "concat (emitted ex debug ((r, f) # ws)) =
      (concat (delivered (snd W)) @ buffer (fst W)) @ '']'' @ BREAK_AT_EOF ex"
    unfolding em p by simp
  also have "\<dots> = (''['' @ JSON_stringify ex (output_object ex debug r)
        @ concat (map (\<lambda>w. '','' @ JSON_stringify ex (output_object ex debug (fst w))) ws))
        @ '']'' @ BREAK_AT_EOF ex"
    by (simp only: main)
  also have "\<dots> = json_array_document ex debug (r # map fst ws)"
    by (simp add: json_array_document_def comma_separated_Cons comp_def)
  finally show ?thesis .
qed

text \<open>
  When the destination is paused at the last write, the chunk pushed there waits while
  \<open>_final\<close> hands its three chunks to the destination directly: the last but one object comes
  after the closing bracket and the line break.
\<close>

lemma paused_destination_is_overtaken:
  "concat (emitted sample_json_externals False
      [(numbered_query ''p0'', True), (numbered_query ''p1'', True), (numbered_query ''p2'', False)])
     = ''[p0,p2]N,p1''
   \<and> json_array_document sample_json_externals False
        [numbered_query ''p0'', numbered_query ''p1'', numbered_query ''p2''] = ''[p0,p1,p2]N''"
  by (simp add: emitted_def JsonTransform_final_def JsonTransform_new_def json_array_document_def
      JsonTransform_transform_def readable_push_def emit_data_def Let_def
      sample_json_externals_def numbered_query_def output_object_def)

text \<open>
  Claim C8 at the empty sequence of records: \<open>_final\<close> emits the empty buffer, the closing
  bracket and the line break, so the output is a closing bracket without its opening one,
  not the empty array.
\<close>

theorem empty_stream_is_no_array:
  "emitted ex debug [] = [[], '']'', BREAK_AT_EOF ex]
   \<and> concat (emitted ex debug []) = '']'' @ BREAK_AT_EOF ex
   \<and> json_array_document ex debug [] = ''[]'' @ BREAK_AT_EOF ex
   \<and> concat (emitted ex debug []) \<noteq> json_array_document ex debug []"
  by (simp add: emitted_def JsonTransform_final_def JsonTransform_new_def json_array_document_def
      emit_data_def)

lemma missing_string_is_blank:
  "falsy (pref r) \<Longrightarrow> result_member (output_object ex debug r) ''pref'' = Some (Leaf (Str (BLANK_CHAR ex)))"
  by (simp add: output_object_def result_member_def or_blank_def)

lemma coordinates_as_they_are:
  "result_member (output_object ex debug r) ''lat'' = Some (Leaf (rep_lat r))
   \<and> result_member (output_object ex debug r) ''lon'' = Some (Leaf (rep_lon r))"
  by (simp add: output_object_def result_member_def)

end
